theory Spec2Isabelle
  imports Main "HOL-Library.Word"
begin

unbundle bit_operations_syntax

section \<open>Data model of android\_jit.cpp\<close>

text \<open>
  The build targets arm64-v8a only, so \<open>void*\<close>, \<open>uintptr_t\<close> and \<open>size_t\<close> are
  64-bit values; arithmetic on them wraps around. The null pointer is 0.
\<close>

type_synonym addr = "64 word"

text \<open>\<open>struct JitAllocation\<close>. The field \<open>size\<close> is called \<open>size_bytes\<close> here.\<close>

record JitAllocation =
  rw_ptr :: addr
  rx_ptr :: addr
  size_bytes :: addr
  fd :: int

text \<open>
  The global state. \<open>std::map<void*, JitAllocation>\<close> is an association list kept in
  ascending key order, the order in which a range-for visits it. The second index,
  \<open>std::map<void*, JitAllocation*>\<close>, holds pointers into the nodes of the first one;
  a node of a \<open>std::map\<close> never moves, so such a pointer is modelled by the key of the
  node it points to. It dangles once that node has been erased.
\<close>

record jit_state =
  g_jit_allocations_by_rw :: "(addr \<times> JitAllocation) list"
  g_jit_allocations_by_rx :: "(addr \<times> addr) list"
  g_page_size :: addr
  g_initialized :: bool

text \<open>The state of the process before any call: empty maps, \<open>g_page_size = 0\<close>.\<close>

definition initial_state :: jit_state where
  "initial_state =
     \<lparr>g_jit_allocations_by_rw = [], g_jit_allocations_by_rx = [],
      g_page_size = 0, g_initialized = False\<rparr>"

subsection \<open>The operating system\<close>

text \<open>
  What the system calls of one call of the allocator return is an input of the model.
  \<open>sysconf_ret\<close> is the value of \<open>sysconf(_SC_PAGESIZE)\<close> after its conversion to
  \<open>size_t\<close>; \<open>mmap\<close> returns \<open>MAP_FAILED\<close>, the address \<open>(void*) -1\<close>, on failure.
\<close>

record os_env =
  sysconf_ret :: addr
  memfd_ret :: int
  ftruncate_ret :: int
  mmap_rw_ret :: addr
  mmap_rx_ret :: addr

definition MAP_FAILED :: addr where
  "MAP_FAILED = - 1"

datatype prot = PROT_READ_WRITE | PROT_READ_EXEC

text \<open>
  The calls that create or release a resource, in the order in which they are made:
  \<open>Memfd_create fd\<close> and \<open>Mmap len prot fd result\<close> carry what the call returned.
  Logging and \<open>sysconf\<close> are not recorded.
\<close>

datatype syscall =
    Memfd_create int
  | Ftruncate int addr
  | Mmap addr prot int addr
  | Munmap addr addr
  | Close int

text \<open>
  Every failure of \<open>android_jit_alloc\<close> returns -1. The branches differ in \<open>errno\<close>
  (set to \<open>EINVAL\<close> by the function itself in the first one, left by the failing system
  call in the others) and in the message logged.
\<close>

datatype jit_error =
    EINVAL_null_slot
  | Memfd_create_failed
  | Ftruncate_failed
  | Mmap_rw_failed
  | Mmap_rx_failed

subsection \<open>\<open>std::map\<close> operations\<close>

text \<open>\<open>m[k] = v\<close>: replaces the value of an existing key, inserts in key order otherwise.\<close>

fun map_put :: "addr \<Rightarrow> 'v \<Rightarrow> (addr \<times> 'v) list \<Rightarrow> (addr \<times> 'v) list" where
  "map_put k v [] = [(k, v)]"
| "map_put k v ((k', v') # m) =
     (if k = k' then (k, v) # m
      else if k < k' then (k, v) # (k', v') # m
      else (k', v') # map_put k v m)"

text \<open>\<open>m.erase(k)\<close>; \<open>m.find(k)\<close> is \<open>map_of m k\<close>.\<close>

definition map_erase :: "addr \<Rightarrow> (addr \<times> 'v) list \<Rightarrow> (addr \<times> 'v) list" where
  "map_erase k m = filter (\<lambda>e. fst e \<noteq> k) m"

section \<open>The operations\<close>

definition round_up_to_page :: "jit_state \<Rightarrow> addr \<Rightarrow> addr" where
  "round_up_to_page st sz = (sz + g_page_size st - 1) AND NOT (g_page_size st - 1)"

text \<open>\<open>android_jit_init\<close> always returns 0; the model returns the new state.\<close>

definition android_jit_init :: "jit_state \<Rightarrow> addr \<Rightarrow> jit_state" where
  "android_jit_init st pagesize =
     (if g_initialized st then st
      else st\<lparr>g_page_size := (if pagesize = 0 then 4096 else pagesize),
              g_initialized := True\<rparr>)"

text \<open>
  The statements that release one allocation. \<open>android_jit_shutdown\<close> and
  \<open>android_jit_free\<close> both contain them, in this order.
\<close>

definition unmap_and_close :: "JitAllocation \<Rightarrow> syscall list" where
  "unmap_and_close alloc =
     (if rw_ptr alloc \<noteq> 0 then [Munmap (rw_ptr alloc) (size_bytes alloc)] else []) @
     (if rx_ptr alloc \<noteq> 0 then [Munmap (rx_ptr alloc) (size_bytes alloc)] else []) @
     (if 0 \<le> fd alloc then [Close (fd alloc)] else [])"

definition android_jit_shutdown :: "jit_state \<Rightarrow> jit_state \<times> syscall list" where
  "android_jit_shutdown st =
     (st\<lparr>g_jit_allocations_by_rw := [], g_jit_allocations_by_rx := [],
         g_initialized := False\<rparr>,
      concat (map (\<lambda>pair. unmap_and_close (snd pair)) (g_jit_allocations_by_rw st)))"

text \<open>
  \<open>android_jit_alloc(size, rw_ptr, rx_ptr)\<close>. The two booleans say whether the output
  slots are non-null. \<open>Inr (rw, rx)\<close> is the return value 0 with \<open>rw\<close> and \<open>rx\<close> stored
  in the slots; \<open>Inl e\<close> is the return value -1, with both slots set to null except at
  \<open>EINVAL_null_slot\<close>, where they are not touched.
\<close>

definition android_jit_alloc ::
  "jit_state \<Rightarrow> os_env \<Rightarrow> addr \<Rightarrow> bool \<Rightarrow> bool \<Rightarrow>
     (jit_error + addr \<times> addr) \<times> jit_state \<times> syscall list" where
  "android_jit_alloc st env sz rw_slot rx_slot =
     (if \<not> rw_slot \<or> \<not> rx_slot then (Inl EINVAL_null_slot, st, [])
      else
        let st1 = (if \<not> g_initialized st then android_jit_init st (sysconf_ret env) else st);
            alloc_size = round_up_to_page st1 sz;
            fd = memfd_ret env
        in if fd < 0 then (Inl Memfd_create_failed, st1, [Memfd_create fd])
        else if ftruncate_ret env < 0 then
          (Inl Ftruncate_failed, st1, [Memfd_create fd, Ftruncate fd alloc_size, Close fd])
        else
          let rw = mmap_rw_ret env
          in if rw = MAP_FAILED then
            (Inl Mmap_rw_failed, st1,
             [Memfd_create fd, Ftruncate fd alloc_size,
              Mmap alloc_size PROT_READ_WRITE fd rw, Close fd])
          else
            let rx = mmap_rx_ret env
            in if rx = MAP_FAILED then
              (Inl Mmap_rx_failed, st1,
               [Memfd_create fd, Ftruncate fd alloc_size,
                Mmap alloc_size PROT_READ_WRITE fd rw, Mmap alloc_size PROT_READ_EXEC fd rx,
                Munmap rw alloc_size, Close fd])
            else
              (Inr (rw, rx),
               st1\<lparr>g_jit_allocations_by_rw :=
                      map_put rw \<lparr>rw_ptr = rw, rx_ptr = rx, size_bytes = alloc_size, fd = fd\<rparr>
                        (g_jit_allocations_by_rw st1),
                    g_jit_allocations_by_rx := map_put rx rw (g_jit_allocations_by_rx st1)\<rparr>,
               [Memfd_create fd, Ftruncate fd alloc_size,
                Mmap alloc_size PROT_READ_WRITE fd rw, Mmap alloc_size PROT_READ_EXEC fd rx]))"

text \<open>\<open>android_jit_free(rw_ptr, rx_ptr, size)\<close>: the new state and the calls made.\<close>

definition android_jit_free ::
  "jit_state \<Rightarrow> addr \<Rightarrow> addr \<Rightarrow> addr \<Rightarrow> jit_state \<times> syscall list" where
  "android_jit_free st rw rx sz =
     (if rw = 0 \<and> rx = 0 then (st, [])
      else case map_of (g_jit_allocations_by_rw st) rw of
        None \<Rightarrow> (st, [])
      | Some alloc \<Rightarrow>
          (st\<lparr>g_jit_allocations_by_rx := map_erase (rx_ptr alloc) (g_jit_allocations_by_rx st),
              g_jit_allocations_by_rw := map_erase rw (g_jit_allocations_by_rw st)\<rparr>,
           unmap_and_close alloc))"

text \<open>The containment scans of the two lookups, over the map in key order.\<close>

fun scan_rx_to_rw :: "addr \<Rightarrow> (addr \<times> JitAllocation) list \<Rightarrow> addr" where
  "scan_rx_to_rw rx_addr [] = 0"
| "scan_rx_to_rw rx_addr (pair # m) =
     (let alloc = snd pair; rx_base = rx_ptr alloc
      in if rx_base \<le> rx_addr \<and> rx_addr < rx_base + size_bytes alloc
         then rw_ptr alloc + (rx_addr - rx_base)
         else scan_rx_to_rw rx_addr m)"

fun scan_rw_to_rx :: "addr \<Rightarrow> (addr \<times> JitAllocation) list \<Rightarrow> addr" where
  "scan_rw_to_rx rw_addr [] = 0"
| "scan_rw_to_rx rw_addr (pair # m) =
     (let alloc = snd pair; rw_base = rw_ptr alloc
      in if rw_base \<le> rw_addr \<and> rw_addr < rw_base + size_bytes alloc
         then rx_ptr alloc + (rw_addr - rw_base)
         else scan_rw_to_rx rw_addr m)"

text \<open>
  The lookups return \<open>Some p\<close> for the pointer \<open>p\<close> they return, \<open>Some 0\<close> being
  \<open>nullptr\<close>, the answer "not found". \<open>None\<close> stands for the undefined behaviour of
  dereferencing a dangling \<open>JitAllocation*\<close> of the second index.
\<close>

definition android_jit_rx_to_rw :: "jit_state \<Rightarrow> addr \<Rightarrow> addr option" where
  "android_jit_rx_to_rw st rx =
     (if rx = 0 then Some 0
      else case map_of (g_jit_allocations_by_rx st) rx of
        Some node \<Rightarrow>
          (case map_of (g_jit_allocations_by_rw st) node of
             Some alloc \<Rightarrow> Some (rw_ptr alloc)
           | None \<Rightarrow> None)
      | None \<Rightarrow> Some (scan_rx_to_rw rx (g_jit_allocations_by_rw st)))"

definition android_jit_rw_to_rx :: "jit_state \<Rightarrow> addr \<Rightarrow> addr option" where
  "android_jit_rw_to_rx st rw =
     (if rw = 0 then Some 0
      else case map_of (g_jit_allocations_by_rw st) rw of
        Some alloc \<Rightarrow> Some (rx_ptr alloc)
      | None \<Rightarrow> Some (scan_rw_to_rx rw (g_jit_allocations_by_rw st)))"

text \<open>\<open>android_jit_page_size\<close>: the new state; the value returned is its \<open>g_page_size\<close>.\<close>

definition android_jit_page_size :: "jit_state \<Rightarrow> addr \<Rightarrow> jit_state" where
  "android_jit_page_size st pagesize =
     (if g_page_size st = 0
      then st\<lparr>g_page_size := (if pagesize = 0 then 4096 else pagesize)\<rparr>
      else st)"

section \<open>The invariant of the registry\<close>

text \<open>
  \<open>in_view base len p\<close> is the containment test of the two lookups, with the wrapping
  addition of \<open>uintptr_t\<close>. A view is well formed when it is what a successful \<open>mmap\<close>
  of a non-zero length returns: a non-null base and a range that ends below the top of the
  address space. Two views are disjoint when one ends before the other begins.
\<close>

definition in_view :: "addr \<Rightarrow> addr \<Rightarrow> addr \<Rightarrow> bool" where
  "in_view base len p \<longleftrightarrow> base \<le> p \<and> p < base + len"

definition region_ok :: "addr \<Rightarrow> addr \<Rightarrow> bool" where
  "region_ok base len \<longleftrightarrow> base \<noteq> 0 \<and> len \<noteq> 0 \<and> unat base + unat len < 2 ^ 64"

definition regions_disjoint :: "addr \<Rightarrow> addr \<Rightarrow> addr \<Rightarrow> addr \<Rightarrow> bool" where
  "regions_disjoint b1 l1 b2 l2 \<longleftrightarrow>
     unat b1 + unat l1 \<le> unat b2 \<or> unat b2 + unat l2 \<le> unat b1"

text \<open>
  A record is well formed under its key when the key is its writable base, both views
  are well formed and disjoint, and the descriptor is valid. Two records are apart when
  no view of one overlaps a view of the other. In a well-formed registry the keys of the
  writable index are distinct, every record is well formed, any two records are apart,
  and the executable index holds, for every record and for nothing else, the executable
  base with a pointer to that record.
\<close>

definition alloc_ok :: "addr \<Rightarrow> JitAllocation \<Rightarrow> bool" where
  "alloc_ok k a \<longleftrightarrow>
     k = rw_ptr a \<and> region_ok (rw_ptr a) (size_bytes a) \<and> region_ok (rx_ptr a) (size_bytes a) \<and>
     regions_disjoint (rw_ptr a) (size_bytes a) (rx_ptr a) (size_bytes a) \<and> 0 \<le> fd a"

definition allocs_apart :: "JitAllocation \<Rightarrow> JitAllocation \<Rightarrow> bool" where
  "allocs_apart a b \<longleftrightarrow>
     regions_disjoint (rw_ptr a) (size_bytes a) (rw_ptr b) (size_bytes b) \<and>
     regions_disjoint (rw_ptr a) (size_bytes a) (rx_ptr b) (size_bytes b) \<and>
     regions_disjoint (rx_ptr a) (size_bytes a) (rw_ptr b) (size_bytes b) \<and>
     regions_disjoint (rx_ptr a) (size_bytes a) (rx_ptr b) (size_bytes b)"

definition rx_index_ok :: "(addr \<times> JitAllocation) list \<Rightarrow> addr \<Rightarrow> addr \<Rightarrow> bool" where
  "rx_index_ok m x node \<longleftrightarrow>
     (case map_of m node of Some a \<Rightarrow> rx_ptr a = x | None \<Rightarrow> False)"

definition registry_ok :: "jit_state \<Rightarrow> bool" where
  "registry_ok st \<longleftrightarrow>
     distinct (map fst (g_jit_allocations_by_rw st)) \<and>
     (\<forall>e \<in> set (g_jit_allocations_by_rw st). alloc_ok (fst e) (snd e)) \<and>
     (\<forall>e \<in> set (g_jit_allocations_by_rw st). \<forall>e' \<in> set (g_jit_allocations_by_rw st).
        fst e \<noteq> fst e' \<longrightarrow> allocs_apart (snd e) (snd e')) \<and>
     (\<forall>e \<in> set (g_jit_allocations_by_rw st).
        map_of (g_jit_allocations_by_rx st) (rx_ptr (snd e)) = Some (fst e)) \<and>
     (\<forall>e \<in> set (g_jit_allocations_by_rx st).
        rx_index_ok (g_jit_allocations_by_rw st) (fst e) (snd e))"

text \<open>An allocation is open when the writable index holds its record under its base.\<close>

definition open_allocation :: "jit_state \<Rightarrow> JitAllocation \<Rightarrow> bool" where
  "open_allocation st a \<longleftrightarrow> map_of (g_jit_allocations_by_rw st) (rw_ptr a) = Some a"

section \<open>Two sample allocations\<close>

text \<open>
  Two calls of \<open>android_jit_alloc\<close> from the initial state, on a system with 4096-byte
  pages where \<open>mmap\<close> places the writable views next to each other.
\<close>

definition env_a :: os_env where
  "env_a = \<lparr>sysconf_ret = 4096, memfd_ret = 3, ftruncate_ret = 0,
            mmap_rw_ret = 0x10000, mmap_rx_ret = 0x20000\<rparr>"

definition env_b :: os_env where
  "env_b = \<lparr>sysconf_ret = 4096, memfd_ret = 4, ftruncate_ret = 0,
            mmap_rw_ret = 0x11000, mmap_rx_ret = 0x21000\<rparr>"

definition alloc_a :: JitAllocation where
  "alloc_a = \<lparr>rw_ptr = 0x10000, rx_ptr = 0x20000, size_bytes = 4096, fd = 3\<rparr>"

definition alloc_b :: JitAllocation where
  "alloc_b = \<lparr>rw_ptr = 0x11000, rx_ptr = 0x21000, size_bytes = 4096, fd = 4\<rparr>"

definition state_a :: jit_state where
  "state_a = fst (snd (android_jit_alloc initial_state env_a 100 True True))"

definition state_ab :: jit_state where
  "state_ab = fst (snd (android_jit_alloc state_a env_b 4096 True True))"

section \<open>What the operating system guarantees\<close>

text \<open>
  The page size reported by \<open>sysconf\<close> is a power of two. \<open>mmap\<close> without
  \<open>MAP_FIXED\<close>, asked for \<open>len\<close> bytes while the ranges \<open>mapped\<close> are in use, either
  fails (as it does for \<open>len = 0\<close>) or returns the base of a range that is non-null,
  ends below the top of the address space and overlaps none of them. The registry's views
  are in use as long as they are registered: callers never unmap them themselves.
  \<open>state_at_mmap\<close> is the state in which \<open>android_jit_alloc\<close> computes the length it
  asks for, after its call of \<open>android_jit_init\<close>.
\<close>

definition page_size_ok :: "addr \<Rightarrow> bool" where
  "page_size_ok ps \<longleftrightarrow> (\<exists>n \<in> {..<64}. ps = 2 ^ n)"

definition mmap_ok :: "(addr \<times> addr) list \<Rightarrow> addr \<Rightarrow> addr \<Rightarrow> bool" where
  "mmap_ok mapped len ret \<longleftrightarrow>
     ret = MAP_FAILED \<or>
     (region_ok ret len \<and> (\<forall>r \<in> set mapped. regions_disjoint ret len (fst r) (snd r)))"

definition views_of :: "(addr \<times> JitAllocation) list \<Rightarrow> (addr \<times> addr) list" where
  "views_of m =
     concat (map (\<lambda>e. [(rw_ptr (snd e), size_bytes (snd e)),
                         (rx_ptr (snd e), size_bytes (snd e))]) m)"

definition state_at_mmap :: "jit_state \<Rightarrow> os_env \<Rightarrow> jit_state" where
  "state_at_mmap st env =
     (if \<not> g_initialized st then android_jit_init st (sysconf_ret env) else st)"

definition os_contract :: "jit_state \<Rightarrow> os_env \<Rightarrow> addr \<Rightarrow> bool" where
  "os_contract st env sz \<longleftrightarrow>
     (let len = round_up_to_page (state_at_mmap st env) sz
      in mmap_ok (views_of (g_jit_allocations_by_rw st)) len (mmap_rw_ret env) \<and>
         mmap_ok ((mmap_rw_ret env, len) # views_of (g_jit_allocations_by_rw st)) len
           (mmap_rx_ret env))"

text \<open>
  The states the process can be in: those that the calls of the interface produce from
  the initial state, on an operating system that keeps its contract. \<open>sysconf\<close>
  reports a power of two; the code also provides for the answer 0.
\<close>

definition sysconf_ok :: "addr \<Rightarrow> bool" where
  "sysconf_ok pagesize \<longleftrightarrow> pagesize = 0 \<or> page_size_ok pagesize"

inductive reachable :: "jit_state \<Rightarrow> bool" where
  start: "reachable initial_state"
| init: "reachable st \<Longrightarrow> sysconf_ok pagesize \<Longrightarrow>
     reachable (android_jit_init st pagesize)"
| shutdown: "reachable st \<Longrightarrow> reachable (fst (android_jit_shutdown st))"
| alloc: "reachable st \<Longrightarrow> sysconf_ok (sysconf_ret env) \<Longrightarrow> os_contract st env sz \<Longrightarrow>
     reachable (fst (snd (android_jit_alloc st env sz rw_slot rx_slot)))"
| free: "reachable st \<Longrightarrow> reachable (fst (android_jit_free st rw rx sz))"
| page_size: "reachable st \<Longrightarrow> sysconf_ok pagesize \<Longrightarrow>
     reachable (android_jit_page_size st pagesize)"

text \<open>Operating systems for the examples: one where the second \<open>mmap\<close> fails, one asked
  for a mapping of length 0.\<close>

definition env_rx_fails :: os_env where
  "env_rx_fails = \<lparr>sysconf_ret = 4096, memfd_ret = 4, ftruncate_ret = 0,
                   mmap_rw_ret = 0x11000, mmap_rx_ret = MAP_FAILED\<rparr>"

definition env_len0 :: os_env where
  "env_len0 = \<lparr>sysconf_ret = 4096, memfd_ret = 4, ftruncate_ret = 0,
               mmap_rw_ret = MAP_FAILED, mmap_rx_ret = MAP_FAILED\<rparr>"

section \<open>The error value of a failed allocation\<close>

text \<open>
  A failed \<open>android_jit_alloc\<close> returns -1 and leaves its error in \<open>errno\<close> (the header:
  "-1 on failure (check errno)"). The function stores \<open>EINVAL\<close> there itself when an
  output slot is null. At its other failures it stores nothing: the caller finds the
  value that the failing system call left, the logging and the \<open>munmap\<close> and \<open>close\<close>
  that follow being taken to leave it alone. \<open>os_errno\<close> holds, for each system call of
  one call of the allocator, the value it leaves in \<open>errno\<close> if it fails. \<open>EINVAL\<close> and
  \<open>EMFILE\<close> have their values on Linux.
\<close>

definition EINVAL :: int where
  "EINVAL = 22"

definition EMFILE :: int where
  "EMFILE = 24"

record os_errno =
  memfd_errno :: int
  ftruncate_errno :: int
  mmap_rw_errno :: int
  mmap_rx_errno :: int

definition alloc_errno :: "os_errno \<Rightarrow> jit_error \<Rightarrow> int" where
  "alloc_errno e err =
     (case err of
        EINVAL_null_slot \<Rightarrow> EINVAL
      | Memfd_create_failed \<Rightarrow> memfd_errno e
      | Ftruncate_failed \<Rightarrow> ftruncate_errno e
      | Mmap_rw_failed \<Rightarrow> mmap_rw_errno e
      | Mmap_rx_failed \<Rightarrow> mmap_rx_errno e)"

text \<open>\<open>None\<close> after a success, where the function leaves no error.\<close>

definition errno_after_alloc :: "os_errno \<Rightarrow> jit_error + addr \<times> addr \<Rightarrow> int option" where
  "errno_after_alloc e res =
     (case res of Inl err \<Rightarrow> Some (alloc_errno e err) | Inr ptrs \<Rightarrow> None)"

text \<open>\<open>mmap\<close> refuses a length of 0 with \<open>EINVAL\<close>.\<close>

definition mmap_errno_ok :: "addr \<Rightarrow> int \<Rightarrow> bool" where
  "mmap_errno_ok len en \<longleftrightarrow> (len = 0 \<longrightarrow> en = EINVAL)"

definition os_errno_contract :: "jit_state \<Rightarrow> os_env \<Rightarrow> os_errno \<Rightarrow> addr \<Rightarrow> bool" where
  "os_errno_contract st env e sz \<longleftrightarrow>
     mmap_errno_ok (round_up_to_page (state_at_mmap st env) sz) (mmap_rw_errno e) \<and>
     mmap_errno_ok (round_up_to_page (state_at_mmap st env) sz) (mmap_rx_errno e)"

text \<open>
  For the examples: the error values of a system that refuses the mapping of length 0,
  and a system that has no descriptor left for \<open>memfd_create\<close>.
\<close>

definition errno_len0 :: os_errno where
  "errno_len0 = \<lparr>memfd_errno = 0, ftruncate_errno = 0, mmap_rw_errno = EINVAL,
                 mmap_rx_errno = EINVAL\<rparr>"

definition env_no_memfd :: os_env where
  "env_no_memfd = \<lparr>sysconf_ret = 4096, memfd_ret = - 1, ftruncate_ret = 0,
                   mmap_rw_ret = MAP_FAILED, mmap_rx_ret = MAP_FAILED\<rparr>"

definition errno_no_memfd :: os_errno where
  "errno_no_memfd = \<lparr>memfd_errno = EMFILE, ftruncate_errno = 0, mmap_rw_errno = EINVAL,
                     mmap_rx_errno = EINVAL\<rparr>"

section \<open>Address arithmetic\<close>

lemma in_view_unat:
  "unat b + unat l < 2 ^ 64 \<Longrightarrow>
   in_view b l p \<longleftrightarrow> unat b \<le> unat p \<and> unat p < unat b + unat l"
  apply (simp add: in_view_def word_le_nat_alt word_less_nat_alt)
  apply (subst unat_add_lem[THEN iffD1])
  apply simp_all
  done

lemma unat_offset:
  "unat (b::addr) + unat l < 2 ^ 64 \<Longrightarrow> k < l \<Longrightarrow> unat (b + k) = unat b + unat k"
  apply (subst unat_add_lem[THEN iffD1])
  apply (simp_all add: word_less_nat_alt)
  done

lemma in_view_offset:
  assumes "region_ok b l" "k < l"
  shows "in_view b l (b + k)"
proof -
  from assms have nw: "unat b + unat l < 2 ^ 64" by (simp add: region_ok_def)
  have "unat (b + k) = unat b + unat k" by (rule unat_offset [OF nw assms(2)])
  moreover from assms(2) have "unat k < unat l" by (simp add: word_less_nat_alt)
  ultimately show ?thesis by (simp add: in_view_unat [OF nw])
qed

lemma in_view_disjoint:
  assumes "region_ok b1 l1" "region_ok b2 l2" "regions_disjoint b1 l1 b2 l2" "in_view b1 l1 p"
  shows "\<not> in_view b2 l2 p"
  using assms by (auto simp: region_ok_def in_view_unat regions_disjoint_def)

lemma in_view_end:
  assumes "region_ok b l"
  shows "\<not> in_view b l (b + l)"
proof -
  from assms have nw: "unat b + unat l < 2 ^ 64" by (simp add: region_ok_def)
  then have "unat (b + l) = unat b + unat l" by (simp add: unat_add_lem [THEN iffD1])
  then show ?thesis by (simp add: in_view_unat [OF nw])
qed

lemma scan_rw_to_rx_Cons:
  "scan_rw_to_rx p (x # m) =
     (if in_view (rw_ptr (snd x)) (size_bytes (snd x)) p
      then rx_ptr (snd x) + (p - rw_ptr (snd x)) else scan_rw_to_rx p m)"
  by (simp add: in_view_def Let_def)

lemma scan_rx_to_rw_Cons:
  "scan_rx_to_rw p (x # m) =
     (if in_view (rx_ptr (snd x)) (size_bytes (snd x)) p
      then rw_ptr (snd x) + (p - rx_ptr (snd x)) else scan_rx_to_rw p m)"
  by (simp add: in_view_def Let_def)

lemma scan_rw_to_rx_hit:
  assumes "e \<in> set m" "in_view (rw_ptr (snd e)) (size_bytes (snd e)) p"
    and "\<forall>e' \<in> set m. in_view (rw_ptr (snd e')) (size_bytes (snd e')) p \<longrightarrow> e' = e"
  shows "scan_rw_to_rx p m = rx_ptr (snd e) + (p - rw_ptr (snd e))"
  using assms
proof (induction m)
  case Nil
  then show ?case by simp
next
  case (Cons x m)
  show ?case
  proof (cases "in_view (rw_ptr (snd x)) (size_bytes (snd x)) p")
    case True
    then have "x = e" using Cons.prems(3) by simp
    with True show ?thesis by (simp only: scan_rw_to_rx_Cons if_True)
  next
    case False
    then have "x \<noteq> e" using Cons.prems(2) by blast
    then have "e \<in> set m" using Cons.prems(1) by simp
    moreover have "\<forall>e' \<in> set m. in_view (rw_ptr (snd e')) (size_bytes (snd e')) p \<longrightarrow> e' = e"
      using Cons.prems(3) by simp
    ultimately have "scan_rw_to_rx p m = rx_ptr (snd e) + (p - rw_ptr (snd e))"
      using Cons.IH Cons.prems(2) by blast
    with False show ?thesis by (simp only: scan_rw_to_rx_Cons if_False)
  qed
qed

lemma scan_rx_to_rw_hit:
  assumes "e \<in> set m" "in_view (rx_ptr (snd e)) (size_bytes (snd e)) p"
    and "\<forall>e' \<in> set m. in_view (rx_ptr (snd e')) (size_bytes (snd e')) p \<longrightarrow> e' = e"
  shows "scan_rx_to_rw p m = rw_ptr (snd e) + (p - rx_ptr (snd e))"
  using assms
proof (induction m)
  case Nil
  then show ?case by simp
next
  case (Cons x m)
  show ?case
  proof (cases "in_view (rx_ptr (snd x)) (size_bytes (snd x)) p")
    case True
    then have "x = e" using Cons.prems(3) by simp
    with True show ?thesis by (simp only: scan_rx_to_rw_Cons if_True)
  next
    case False
    then have "x \<noteq> e" using Cons.prems(2) by blast
    then have "e \<in> set m" using Cons.prems(1) by simp
    moreover have "\<forall>e' \<in> set m. in_view (rx_ptr (snd e')) (size_bytes (snd e')) p \<longrightarrow> e' = e"
      using Cons.prems(3) by simp
    ultimately have "scan_rx_to_rw p m = rw_ptr (snd e) + (p - rx_ptr (snd e))"
      using Cons.IH Cons.prems(2) by blast
    with False show ?thesis by (simp only: scan_rx_to_rw_Cons if_False)
  qed
qed

lemma scan_rw_to_rx_miss:
  "\<forall>e \<in> set m. \<not> in_view (rw_ptr (snd e)) (size_bytes (snd e)) p \<Longrightarrow> scan_rw_to_rx p m = 0"
proof (induction m)
  case Nil
  show ?case by simp
next
  case (Cons x m)
  then show ?case by (simp only: scan_rw_to_rx_Cons) simp
qed

lemma scan_rx_to_rw_miss:
  "\<forall>e \<in> set m. \<not> in_view (rx_ptr (snd e)) (size_bytes (snd e)) p \<Longrightarrow> scan_rx_to_rw p m = 0"
proof (induction m)
  case Nil
  show ?case by simp
next
  case (Cons x m)
  then show ?case by (simp only: scan_rx_to_rw_Cons) simp
qed

lemma in_view_base: "region_ok b l \<Longrightarrow> in_view b l b"
  using in_view_offset [of b l 0] by (simp add: region_ok_def word_neq_0_conv)

lemma in_view_nonzero:
  assumes "region_ok b l" "in_view b l p"
  shows "p \<noteq> 0"
proof
  assume "p = 0"
  from assms have nw: "unat b + unat l < 2 ^ 64" by (simp add: region_ok_def)
  from assms(1) have "unat b \<noteq> 0" by (simp add: region_ok_def unat_eq_0)
  moreover from assms(2) have "unat b \<le> unat p" by (simp add: in_view_unat [OF nw])
  ultimately show False using \<open>p = 0\<close> by simp
qed

lemma in_view_offset_less:
  assumes "region_ok b l" "in_view b l p"
  shows "p - b < l"
proof -
  from assms have nw: "unat b + unat l < 2 ^ 64" by (simp add: region_ok_def)
  from assms(2) have le: "b \<le> p" by (simp add: in_view_def)
  then have "unat (p - b) = unat p - unat b" by (rule unat_sub)
  moreover from assms(2) have "unat b \<le> unat p \<and> unat p < unat b + unat l"
    by (simp add: in_view_unat [OF nw])
  ultimately have "unat (p - b) < unat l" by arith
  then show ?thesis by (simp add: word_less_nat_alt)
qed

lemma open_allocation_mem:
  "open_allocation st a \<Longrightarrow> (rw_ptr a, a) \<in> set (g_jit_allocations_by_rw st)"
  by (simp add: open_allocation_def map_of_SomeD)

lemma registry_entry_ok:
  "registry_ok st \<Longrightarrow> e \<in> set (g_jit_allocations_by_rw st) \<Longrightarrow> alloc_ok (fst e) (snd e)"
  by (simp add: registry_ok_def)

lemma registry_same_key:
  assumes "registry_ok st" "e \<in> set (g_jit_allocations_by_rw st)"
    "e' \<in> set (g_jit_allocations_by_rw st)" "fst e = fst e'"
  shows "e = e'"
proof -
  from assms(1) have "distinct (map fst (g_jit_allocations_by_rw st))"
    by (simp add: registry_ok_def)
  with assms(2-4) show ?thesis
    by (metis eq_key_imp_eq_value prod.collapse)
qed

lemma registry_apart:
  assumes "registry_ok st" "e \<in> set (g_jit_allocations_by_rw st)"
    "e' \<in> set (g_jit_allocations_by_rw st)" "fst e \<noteq> fst e'"
  shows "allocs_apart (snd e) (snd e')"
  using assms unfolding registry_ok_def by blast

text \<open>An address lies in at most one view of at most one open allocation.\<close>

lemma other_views_miss:
  assumes ok: "registry_ok st" and e: "e \<in> set (g_jit_allocations_by_rw st)"
    and e': "e' \<in> set (g_jit_allocations_by_rw st)" and ne: "fst e \<noteq> fst e'"
    and p: "in_view (rw_ptr (snd e)) (size_bytes (snd e)) p \<or>
            in_view (rx_ptr (snd e)) (size_bytes (snd e)) p"
  shows "\<not> in_view (rw_ptr (snd e')) (size_bytes (snd e')) p \<and>
         \<not> in_view (rx_ptr (snd e')) (size_bytes (snd e')) p"
proof -
  have a: "alloc_ok (fst e) (snd e)" and b: "alloc_ok (fst e') (snd e')"
    using ok e e' by (auto dest: registry_entry_ok)
  have ap: "allocs_apart (snd e) (snd e')" by (rule registry_apart [OF ok e e' ne])
  from p show ?thesis
  proof
    assume "in_view (rw_ptr (snd e)) (size_bytes (snd e)) p"
    with a b ap show ?thesis
      by (auto simp: alloc_ok_def allocs_apart_def dest: in_view_disjoint)
  next
    assume "in_view (rx_ptr (snd e)) (size_bytes (snd e)) p"
    with a b ap show ?thesis
      by (auto simp: alloc_ok_def allocs_apart_def dest: in_view_disjoint)
  qed
qed

lemma rw_view_unique:
  assumes ok: "registry_ok st" and e: "e \<in> set (g_jit_allocations_by_rw st)"
    and e': "e' \<in> set (g_jit_allocations_by_rw st)"
    and p: "in_view (rw_ptr (snd e)) (size_bytes (snd e)) p"
    and p': "in_view (rw_ptr (snd e')) (size_bytes (snd e')) p"
  shows "e' = e"
proof (cases "fst e = fst e'")
  case True
  then show ?thesis using registry_same_key [OF ok e e'] by simp
next
  case False
  then show ?thesis using other_views_miss [OF ok e e' False] p p' by simp
qed

lemma rx_view_unique:
  assumes ok: "registry_ok st" and e: "e \<in> set (g_jit_allocations_by_rw st)"
    and e': "e' \<in> set (g_jit_allocations_by_rw st)"
    and p: "in_view (rx_ptr (snd e)) (size_bytes (snd e)) p"
    and p': "in_view (rx_ptr (snd e')) (size_bytes (snd e')) p"
  shows "e' = e"
proof (cases "fst e = fst e'")
  case True
  then show ?thesis using registry_same_key [OF ok e e'] by simp
next
  case False
  then show ?thesis using other_views_miss [OF ok e e' False] p p' by simp
qed

lemma rw_to_rx_in_view:
  assumes ok: "registry_ok st" and op: "open_allocation st a"
    and p: "in_view (rw_ptr a) (size_bytes a) p"
  shows "android_jit_rw_to_rx st p = Some (rx_ptr a + (p - rw_ptr a))"
proof -
  let ?m = "g_jit_allocations_by_rw st"
  have e: "(rw_ptr a, a) \<in> set ?m" by (rule open_allocation_mem [OF op])
  have aok: "alloc_ok (rw_ptr a) a" using registry_entry_ok [OF ok e] by simp
  then have nz: "p \<noteq> 0" using p by (auto simp: alloc_ok_def dest: in_view_nonzero)
  show ?thesis
  proof (cases "map_of ?m p")
    case None
    have "scan_rw_to_rx p ?m = rx_ptr (snd (rw_ptr a, a)) + (p - rw_ptr (snd (rw_ptr a, a)))"
    proof (rule scan_rw_to_rx_hit [OF e])
      show "in_view (rw_ptr (snd (rw_ptr a, a))) (size_bytes (snd (rw_ptr a, a))) p"
        using p by simp
      show "\<forall>e'\<in>set ?m. in_view (rw_ptr (snd e')) (size_bytes (snd e')) p \<longrightarrow> e' = (rw_ptr a, a)"
        using rw_view_unique [OF ok e] p by simp
    qed
    with None nz show ?thesis by (simp add: android_jit_rw_to_rx_def)
  next
    case (Some b)
    then have e': "(p, b) \<in> set ?m" by (rule map_of_SomeD)
    have bok: "alloc_ok p b" using registry_entry_ok [OF ok e'] by simp
    then have "in_view (rw_ptr b) (size_bytes b) p"
      by (auto simp: alloc_ok_def dest: in_view_base)
    then have "(p, b) = (rw_ptr a, a)"
      using rw_view_unique [OF ok e e'] p by simp
    with Some nz show ?thesis by (simp add: android_jit_rw_to_rx_def)
  qed
qed

lemma rx_to_rw_in_view:
  assumes ok: "registry_ok st" and op: "open_allocation st a"
    and p: "in_view (rx_ptr a) (size_bytes a) p"
  shows "android_jit_rx_to_rw st p = Some (rw_ptr a + (p - rx_ptr a))"
proof -
  let ?m = "g_jit_allocations_by_rw st"
  have e: "(rw_ptr a, a) \<in> set ?m" by (rule open_allocation_mem [OF op])
  have aok: "alloc_ok (rw_ptr a) a" using registry_entry_ok [OF ok e] by simp
  then have nz: "p \<noteq> 0" using p by (auto simp: alloc_ok_def dest: in_view_nonzero)
  show ?thesis
  proof (cases "map_of (g_jit_allocations_by_rx st) p")
    case None
    have "scan_rx_to_rw p ?m = rw_ptr (snd (rw_ptr a, a)) + (p - rx_ptr (snd (rw_ptr a, a)))"
    proof (rule scan_rx_to_rw_hit [OF e])
      show "in_view (rx_ptr (snd (rw_ptr a, a))) (size_bytes (snd (rw_ptr a, a))) p"
        using p by simp
      show "\<forall>e'\<in>set ?m. in_view (rx_ptr (snd e')) (size_bytes (snd e')) p \<longrightarrow> e' = (rw_ptr a, a)"
        using rx_view_unique [OF ok e] p by simp
    qed
    with None nz show ?thesis by (simp add: android_jit_rx_to_rw_def)
  next
    case (Some node)
    then have "(p, node) \<in> set (g_jit_allocations_by_rx st)" by (rule map_of_SomeD)
    with ok have "rx_index_ok ?m p node" by (auto simp: registry_ok_def)
    then obtain b where b: "map_of ?m node = Some b" and rxb: "rx_ptr b = p"
      by (auto simp: rx_index_ok_def split: option.splits)
    from b have e': "(node, b) \<in> set ?m" by (rule map_of_SomeD)
    have bok: "alloc_ok node b" using registry_entry_ok [OF ok e'] by simp
    then have "in_view (rx_ptr b) (size_bytes b) p"
      using rxb by (auto simp: alloc_ok_def dest: in_view_base)
    then have "(node, b) = (rw_ptr a, a)"
      using rx_view_unique [OF ok e e'] p by simp
    with Some b rxb nz show ?thesis by (simp add: android_jit_rx_to_rw_def)
  qed
qed

section \<open>The sample states, evaluated\<close>

lemma state_a_eq:
  "state_a = \<lparr>g_jit_allocations_by_rw = [(0x10000, alloc_a)],
              g_jit_allocations_by_rx = [(0x20000, 0x10000)],
              g_page_size = 4096, g_initialized = True\<rparr>"
  by (simp add: state_a_def android_jit_alloc_def initial_state_def env_a_def android_jit_init_def
      round_up_to_page_def MAP_FAILED_def alloc_a_def Let_def)

lemma state_ab_eq:
  "state_ab = \<lparr>g_jit_allocations_by_rw = [(0x10000, alloc_a), (0x11000, alloc_b)],
               g_jit_allocations_by_rx = [(0x20000, 0x10000), (0x21000, 0x11000)],
               g_page_size = 4096, g_initialized = True\<rparr>"
  by (simp add: state_ab_def state_a_eq android_jit_alloc_def env_b_def
      round_up_to_page_def MAP_FAILED_def alloc_b_def Let_def)

lemma registry_ok_state_ab: "registry_ok state_ab"
  by (simp add: state_ab_eq registry_ok_def alloc_ok_def allocs_apart_def region_ok_def
      regions_disjoint_def rx_index_ok_def alloc_a_def alloc_b_def)

lemma open_a: "open_allocation state_ab alloc_a"
  by (simp add: state_ab_eq open_allocation_def alloc_a_def)

section \<open>Translation inside an open allocation\<close>

lemma open_allocation_ok:
  "registry_ok st \<Longrightarrow> open_allocation st a \<Longrightarrow> alloc_ok (rw_ptr a) a"
  using registry_entry_ok [of st "(rw_ptr a, a)"] by (simp add: open_allocation_mem)

lemma open_allocation_views:
  "registry_ok st \<Longrightarrow> open_allocation st a \<Longrightarrow>
   region_ok (rw_ptr a) (size_bytes a) \<and> region_ok (rx_ptr a) (size_bytes a)"
  using open_allocation_ok [of st a] by (simp add: alloc_ok_def)

lemma interior_lookups:
  assumes "registry_ok st" "open_allocation st a" "k < size_bytes a"
  shows "android_jit_rw_to_rx st (rw_ptr a + k) = Some (rx_ptr a + k) \<and>
         android_jit_rx_to_rw st (rx_ptr a + k) = Some (rw_ptr a + k)"
proof -
  have v: "region_ok (rw_ptr a) (size_bytes a) \<and> region_ok (rx_ptr a) (size_bytes a)"
    using assms(1,2) by (rule open_allocation_views)
  have "in_view (rw_ptr a) (size_bytes a) (rw_ptr a + k)"
    using v assms(3) by (simp add: in_view_offset)
  then have 1: "android_jit_rw_to_rx st (rw_ptr a + k) = Some (rx_ptr a + k)"
    using rw_to_rx_in_view [OF assms(1,2)] by fastforce
  have "in_view (rx_ptr a) (size_bytes a) (rx_ptr a + k)"
    using v assms(3) by (simp add: in_view_offset)
  then have 2: "android_jit_rx_to_rw st (rx_ptr a + k) = Some (rw_ptr a + k)"
    using rx_to_rw_in_view [OF assms(1,2)] by fastforce
  from 1 2 show ?thesis by simp
qed

text \<open>
  C2: in a well-formed registry, for an open allocation of recorded size \<open>N\<close> and every
  offset \<open>k < N\<close>, \<open>rw_to_rx\<close> maps \<open>writable_base + k\<close> to
  \<open>executable_base + k\<close> and \<open>rx_to_rw\<close> maps \<open>executable_base + k\<close> to
  \<open>writable_base + k\<close>.
\<close>

theorem interior_translation:
  assumes "registry_ok st" "open_allocation st a" "k < size_bytes a"
  shows "android_jit_rw_to_rx st (rw_ptr a + k) = Some (rx_ptr a + k) \<and>
         android_jit_rx_to_rw st (rx_ptr a + k) = Some (rw_ptr a + k)"
  using assms by (rule interior_lookups)

theorem interior_translation_witness:
  "registry_ok state_ab \<and> open_allocation state_ab alloc_a \<and> (16::addr) < size_bytes alloc_a \<and>
   android_jit_rw_to_rx state_ab 0x10010 = Some 0x20010 \<and>
   android_jit_rx_to_rw state_ab 0x20010 = Some 0x10010"
  using interior_translation [OF registry_ok_state_ab open_a, of 16]
    registry_ok_state_ab open_a
  by (simp add: alloc_a_def)

lemma rx_rw_rx:
  assumes ok: "registry_ok st" and op: "open_allocation st a"
    and x: "in_view (rx_ptr a) (size_bytes a) x"
  shows "Option.bind (android_jit_rx_to_rw st x) (android_jit_rw_to_rx st) = Some x"
proof -
  have v: "region_ok (rw_ptr a) (size_bytes a) \<and> region_ok (rx_ptr a) (size_bytes a)"
    using ok op by (rule open_allocation_views)
  have 1: "android_jit_rx_to_rw st x = Some (rw_ptr a + (x - rx_ptr a))"
    by (rule rx_to_rw_in_view [OF ok op x])
  have "x - rx_ptr a < size_bytes a" using v x by (simp add: in_view_offset_less)
  then have "in_view (rw_ptr a) (size_bytes a) (rw_ptr a + (x - rx_ptr a))"
    using v by (simp add: in_view_offset)
  then have "android_jit_rw_to_rx st (rw_ptr a + (x - rx_ptr a)) = Some x"
    using rw_to_rx_in_view [OF ok op] by fastforce
  with 1 show ?thesis by simp
qed

lemma rw_rx_rw:
  assumes ok: "registry_ok st" and op: "open_allocation st a"
    and y: "in_view (rw_ptr a) (size_bytes a) y"
  shows "Option.bind (android_jit_rw_to_rx st y) (android_jit_rx_to_rw st) = Some y"
proof -
  have v: "region_ok (rw_ptr a) (size_bytes a) \<and> region_ok (rx_ptr a) (size_bytes a)"
    using ok op by (rule open_allocation_views)
  have 1: "android_jit_rw_to_rx st y = Some (rx_ptr a + (y - rw_ptr a))"
    by (rule rw_to_rx_in_view [OF ok op y])
  have "y - rw_ptr a < size_bytes a" using v y by (simp add: in_view_offset_less)
  then have "in_view (rx_ptr a) (size_bytes a) (rx_ptr a + (y - rw_ptr a))"
    using v by (simp add: in_view_offset)
  then have "android_jit_rx_to_rw st (rx_ptr a + (y - rw_ptr a)) = Some y"
    using rx_to_rw_in_view [OF ok op] by fastforce
  with 1 show ?thesis by simp
qed

text \<open>
  C3: in a well-formed registry, for every address \<open>x\<close> in the executable view of an
  open allocation \<open>rw_to_rx (rx_to_rw x) = x\<close>, and for every address \<open>y\<close> in its
  writable view \<open>rx_to_rw (rw_to_rx y) = y\<close>.
\<close>

theorem translations_inverse:
  assumes "registry_ok st" "open_allocation st a"
  shows "(in_view (rx_ptr a) (size_bytes a) x \<longrightarrow>
            Option.bind (android_jit_rx_to_rw st x) (android_jit_rw_to_rx st) = Some x) \<and>
         (in_view (rw_ptr a) (size_bytes a) y \<longrightarrow>
            Option.bind (android_jit_rw_to_rx st y) (android_jit_rx_to_rw st) = Some y)"
  using rx_rw_rx [OF assms] rw_rx_rw [OF assms] by simp

theorem translations_inverse_witness:
  "registry_ok state_ab \<and> open_allocation state_ab alloc_b \<and>
   in_view (rx_ptr alloc_b) (size_bytes alloc_b) 0x21fff \<and>
   Option.bind (android_jit_rx_to_rw state_ab 0x21fff) (android_jit_rw_to_rx state_ab) = Some 0x21fff \<and>
   in_view (rw_ptr alloc_b) (size_bytes alloc_b) 0x11000 \<and>
   Option.bind (android_jit_rw_to_rx state_ab 0x11000) (android_jit_rx_to_rw state_ab) = Some 0x11000"
proof -
  have op: "open_allocation state_ab alloc_b"
    by (simp add: state_ab_eq open_allocation_def alloc_a_def alloc_b_def)
  have x: "in_view (rx_ptr alloc_b) (size_bytes alloc_b) 0x21fff"
    by (simp add: in_view_def alloc_b_def)
  have y: "in_view (rw_ptr alloc_b) (size_bytes alloc_b) 0x11000"
    by (simp add: in_view_def alloc_b_def)
  from translations_inverse [OF registry_ok_state_ab op, of "0x21fff" "0x11000"] x y
    registry_ok_state_ab op
  show ?thesis by simp
qed

section \<open>Freeing\<close>

lemma map_of_map_erase: "map_of (map_erase k m) = (map_of m)(k := None)"
  by (induction m) (auto simp: map_erase_def fun_eq_iff)

lemma free_unregistered:
  "map_of (g_jit_allocations_by_rw st) rw = None \<Longrightarrow> android_jit_free st rw rx sz = (st, [])"
  by (simp add: android_jit_free_def)

lemma free_unregisters:
  "map_of (g_jit_allocations_by_rw (fst (android_jit_free st rw rx sz))) rw = None
   \<or> android_jit_free st rw rx sz = (st, [])"
  by (auto simp: android_jit_free_def map_of_map_erase split: option.splits)

text \<open>
  C10: \<open>android_jit_free\<close> never reads its \<open>size\<close> argument: two calls that differ only
  in it leave the same state and make the same system calls.
\<close>

theorem free_ignores_size:
  "android_jit_free st rw rx sz1 = android_jit_free st rw rx sz2"
  by (simp add: android_jit_free_def)

lemma free_registered:
  assumes "registry_ok st" "open_allocation st a"
  shows "android_jit_free st (rw_ptr a) x sz =
    (st\<lparr>g_jit_allocations_by_rx := map_erase (rx_ptr a) (g_jit_allocations_by_rx st),
        g_jit_allocations_by_rw := map_erase (rw_ptr a) (g_jit_allocations_by_rw st)\<rparr>,
     unmap_and_close a)"
proof -
  have "rw_ptr a \<noteq> 0"
    using open_allocation_views [OF assms] by (simp add: region_ok_def)
  with assms(2) show ?thesis
    by (simp add: android_jit_free_def open_allocation_def)
qed

lemma set_map_erase: "set (map_erase k m) = {e \<in> set m. fst e \<noteq> k}"
  by (auto simp: map_erase_def)

lemma lookups_miss_after_free:
  assumes ok: "registry_ok st" and op: "open_allocation st a"
    and p: "in_view (rw_ptr a) (size_bytes a) p \<or> in_view (rx_ptr a) (size_bytes a) p"
  shows "android_jit_rw_to_rx (fst (android_jit_free st (rw_ptr a) x sz)) p = Some 0 \<and>
         android_jit_rx_to_rw (fst (android_jit_free st (rw_ptr a) x sz)) p = Some 0"
proof -
  let ?m = "g_jit_allocations_by_rw st"
  let ?m' = "map_erase (rw_ptr a) ?m"
  let ?x' = "map_erase (rx_ptr a) (g_jit_allocations_by_rx st)"
  let ?st' = "fst (android_jit_free st (rw_ptr a) x sz)"
  have st': "g_jit_allocations_by_rw ?st' = ?m'" "g_jit_allocations_by_rx ?st' = ?x'"
    by (simp_all add: free_registered [OF ok op])
  have e: "(rw_ptr a, a) \<in> set ?m" by (rule open_allocation_mem [OF op])
  have away: "\<not> in_view (rw_ptr (snd e')) (size_bytes (snd e')) p \<and>
              \<not> in_view (rx_ptr (snd e')) (size_bytes (snd e')) p"
    if "e' \<in> set ?m" "fst e' \<noteq> rw_ptr a" for e'
    using other_views_miss [OF ok e that(1)] that(2) p by simp
  have rest: "e' \<in> set ?m \<and> fst e' \<noteq> rw_ptr a" if "e' \<in> set ?m'" for e'
    using that by (simp add: set_map_erase)
  have scan_rw: "scan_rw_to_rx p ?m' = 0"
    by (rule scan_rw_to_rx_miss) (use away rest in blast)
  have scan_rx: "scan_rx_to_rw p ?m' = 0"
    by (rule scan_rx_to_rw_miss) (use away rest in blast)
  have no_rw: "map_of ?m' p = None"
  proof (cases "map_of ?m' p")
    case (Some b)
    then have mem: "(p, b) \<in> set ?m'" by (rule map_of_SomeD)
    then have in_m: "(p, b) \<in> set ?m" and ne: "p \<noteq> rw_ptr a"
      using rest [OF mem] by simp_all
    have "alloc_ok p b" using registry_entry_ok [OF ok in_m] by simp
    then have "in_view (rw_ptr b) (size_bytes b) p"
      by (auto simp: alloc_ok_def dest: in_view_base)
    moreover have "\<not> in_view (rw_ptr b) (size_bytes b) p"
      using away [OF in_m] ne by simp
    ultimately show ?thesis by simp
  qed simp
  have no_rx: "map_of ?x' p = None"
  proof (cases "map_of ?x' p")
    case (Some node)
    then have ne: "p \<noteq> rx_ptr a"
      and look: "map_of (g_jit_allocations_by_rx st) p = Some node"
      by (auto simp: map_of_map_erase split: if_splits)
    from look have "(p, node) \<in> set (g_jit_allocations_by_rx st)" by (rule map_of_SomeD)
    with ok have "rx_index_ok ?m p node" by (auto simp: registry_ok_def)
    then obtain b where b: "map_of ?m node = Some b" and rxb: "rx_ptr b = p"
      by (auto simp: rx_index_ok_def split: option.splits)
    from b have in_m: "(node, b) \<in> set ?m" by (rule map_of_SomeD)
    have "node \<noteq> rw_ptr a"
    proof
      assume "node = rw_ptr a"
      with b op have "b = a" by (simp add: open_allocation_def)
      with rxb ne show False by simp
    qed
    then have "\<not> in_view (rx_ptr b) (size_bytes b) p"
      using away [OF in_m] by simp
    moreover have "alloc_ok node b" using registry_entry_ok [OF ok in_m] by simp
    then have "in_view (rx_ptr b) (size_bytes b) p"
      using rxb by (auto simp: alloc_ok_def dest: in_view_base)
    ultimately show ?thesis by simp
  qed simp
  show ?thesis
    using scan_rw scan_rx no_rw no_rx
    by (simp add: android_jit_rw_to_rx_def android_jit_rx_to_rw_def st')
qed

text \<open>
  C5: after \<open>free\<close> of a registered allocation, \<open>rw_to_rx\<close> and \<open>rx_to_rw\<close> return
  not-found on every base or interior address of either view of the freed allocation.
\<close>

theorem freed_addresses_not_found:
  assumes "registry_ok st" "open_allocation st a"
    and "in_view (rw_ptr a) (size_bytes a) p \<or> in_view (rx_ptr a) (size_bytes a) p"
  shows "android_jit_rw_to_rx (fst (android_jit_free st (rw_ptr a) x sz)) p = Some 0 \<and>
         android_jit_rx_to_rw (fst (android_jit_free st (rw_ptr a) x sz)) p = Some 0"
  using assms by (rule lookups_miss_after_free)

theorem freed_addresses_not_found_witness:
  "registry_ok state_ab \<and> open_allocation state_ab alloc_a \<and>
   in_view (rx_ptr alloc_a) (size_bytes alloc_a) 0x20010 \<and>
   android_jit_rx_to_rw state_ab 0x20010 = Some 0x10010 \<and>
   android_jit_rw_to_rx (fst (android_jit_free state_ab 0x10000 0x20000 4096)) 0x20010 = Some 0 \<and>
   android_jit_rx_to_rw (fst (android_jit_free state_ab 0x10000 0x20000 4096)) 0x20010 = Some 0"
proof -
  have p: "in_view (rx_ptr alloc_a) (size_bytes alloc_a) 0x20010"
    by (simp add: in_view_def alloc_a_def)
  have before: "android_jit_rx_to_rw state_ab 0x20010 = Some 0x10010"
    by (simp add: state_ab_eq android_jit_rx_to_rw_def alloc_a_def alloc_b_def)
  have "rw_ptr alloc_a = 0x10000" by (simp add: alloc_a_def)
  with freed_addresses_not_found [OF registry_ok_state_ab open_a, of "0x20010" "0x20000" 4096]
    p before registry_ok_state_ab open_a
  show ?thesis by simp
qed

text \<open>
  C8: \<open>free\<close> with a writable pointer that is not registered makes no system call and
  returns the state as it was; a second \<open>free\<close> with the arguments of a first one is
  such a call.
\<close>

theorem free_unknown_is_noop:
  "(map_of (g_jit_allocations_by_rw st) rw = None \<longrightarrow>
      android_jit_free st rw rx sz = (st, [])) \<and>
   android_jit_free (fst (android_jit_free st rw rx sz)) rw rx sz =
     (fst (android_jit_free st rw rx sz), [])"
  using free_unregisters [of st rw rx sz]
  by (auto simp: free_unregistered)

theorem free_unknown_is_noop_witness:
  "map_of (g_jit_allocations_by_rw state_ab) 0x30000 = None \<and>
   android_jit_free state_ab 0x30000 0x40000 4096 = (state_ab, []) \<and>
   snd (android_jit_free state_ab 0x10000 0x20000 4096) =
     [Munmap 0x10000 4096, Munmap 0x20000 4096, Close 3] \<and>
   android_jit_free (fst (android_jit_free state_ab 0x10000 0x20000 4096)) 0x10000 0x20000 4096 =
     (fst (android_jit_free state_ab 0x10000 0x20000 4096), [])"
proof -
  have none: "map_of (g_jit_allocations_by_rw state_ab) 0x30000 = None"
    by (simp add: state_ab_eq)
  have first: "snd (android_jit_free state_ab 0x10000 0x20000 4096) =
      [Munmap 0x10000 4096, Munmap 0x20000 4096, Close 3]"
    by (simp add: state_ab_eq android_jit_free_def unmap_and_close_def alloc_a_def)
  from free_unknown_is_noop [of state_ab "0x30000" "0x40000" 4096]
    free_unknown_is_noop [of state_ab "0x10000" "0x20000" 4096] none first
  show ?thesis by simp
qed

text \<open>
  C4 does not hold as stated: the address one past the end of an allocation's writable
  view is the base of the next allocation when the two views are adjacent, and then
  \<open>rw_to_rx\<close> resolves it against that allocation.
\<close>

theorem end_address_counterexample:
  "registry_ok state_ab \<and> open_allocation state_ab alloc_a \<and>
   rw_ptr alloc_a + size_bytes alloc_a = 0x11000 \<and>
   android_jit_rw_to_rx state_ab (rw_ptr alloc_a + size_bytes alloc_a) = Some 0x21000 \<and>
   android_jit_rw_to_rx state_ab (rw_ptr alloc_a + size_bytes alloc_a) \<noteq> Some 0"
proof -
  have "android_jit_rw_to_rx state_ab (rw_ptr alloc_a + size_bytes alloc_a) = Some 0x21000"
    by (simp add: state_ab_eq android_jit_rw_to_rx_def alloc_a_def alloc_b_def)
  moreover have "rw_ptr alloc_a + size_bytes alloc_a = 0x11000" by (simp add: alloc_a_def)
  ultimately show ?thesis using registry_ok_state_ab open_a by simp
qed

text \<open>
  C4 as amended: the containment test is exclusive at the upper end, so an allocation
  never matches the address one past its own writable view, and \<open>rw_to_rx\<close> returns
  not-found there unless the address lies in the writable view of another open allocation.
\<close>

theorem end_address_not_found:
  assumes ok: "registry_ok st" and op: "open_allocation st a"
    and others: "\<forall>e \<in> set (g_jit_allocations_by_rw st). fst e \<noteq> rw_ptr a \<longrightarrow>
       \<not> in_view (rw_ptr (snd e)) (size_bytes (snd e)) (rw_ptr a + size_bytes a)"
  shows "\<not> in_view (rw_ptr a) (size_bytes a) (rw_ptr a + size_bytes a) \<and>
         android_jit_rw_to_rx st (rw_ptr a + size_bytes a) = Some 0"
proof -
  let ?m = "g_jit_allocations_by_rw st"
  let ?p = "rw_ptr a + size_bytes a"
  have e: "(rw_ptr a, a) \<in> set ?m" by (rule open_allocation_mem [OF op])
  have v: "region_ok (rw_ptr a) (size_bytes a)"
    using open_allocation_views [OF ok op] by simp
  have own: "\<not> in_view (rw_ptr a) (size_bytes a) ?p" by (rule in_view_end [OF v])
  have miss: "\<not> in_view (rw_ptr (snd e')) (size_bytes (snd e')) ?p" if "e' \<in> set ?m" for e'
  proof (cases "fst e' = rw_ptr a")
    case True
    then have "e' = (rw_ptr a, a)" using registry_same_key [OF ok that e] by simp
    with own show ?thesis by simp
  next
    case False
    with others that show ?thesis by blast
  qed
  have scan: "scan_rw_to_rx ?p ?m = 0"
    by (rule scan_rw_to_rx_miss) (use miss in blast)
  have "map_of ?m ?p = None"
  proof (cases "map_of ?m ?p")
    case (Some b)
    then have mem: "(?p, b) \<in> set ?m" by (rule map_of_SomeD)
    have "alloc_ok ?p b" using registry_entry_ok [OF ok mem] by simp
    then have "in_view (rw_ptr b) (size_bytes b) ?p"
      by (auto simp: alloc_ok_def dest: in_view_base)
    with miss [OF mem] show ?thesis by simp
  qed simp
  with scan own show ?thesis by (simp add: android_jit_rw_to_rx_def)
qed

theorem end_address_not_found_witness:
  "registry_ok state_ab \<and> open_allocation state_ab alloc_b \<and>
   rw_ptr alloc_b + size_bytes alloc_b = 0x12000 \<and>
   \<not> in_view (rw_ptr alloc_a) (size_bytes alloc_a) 0x12000 \<and>
   \<not> in_view (rw_ptr alloc_b) (size_bytes alloc_b) 0x12000 \<and>
   android_jit_rw_to_rx state_ab 0x12000 = Some 0"
proof -
  have op: "open_allocation state_ab alloc_b"
    by (simp add: state_ab_eq open_allocation_def alloc_a_def alloc_b_def)
  have end_b: "rw_ptr alloc_b + size_bytes alloc_b = 0x12000" by (simp add: alloc_b_def)
  have na: "\<not> in_view (rw_ptr alloc_a) (size_bytes alloc_a) 0x12000"
    by (simp add: in_view_def alloc_a_def)
  have others: "\<forall>e \<in> set (g_jit_allocations_by_rw state_ab). fst e \<noteq> rw_ptr alloc_b \<longrightarrow>
       \<not> in_view (rw_ptr (snd e)) (size_bytes (snd e)) (rw_ptr alloc_b + size_bytes alloc_b)"
    using na by (simp add: state_ab_eq end_b) (simp add: alloc_b_def)
  from end_address_not_found [OF registry_ok_state_ab op others] end_b na
    registry_ok_state_ab op
  show ?thesis by simp
qed

section \<open>Rounding up to the page size\<close>

lemma and_not_low_bits:
  fixes x :: addr
  shows "x AND NOT (2 ^ n - 1) = push_bit n (drop_bit n x)"
  unfolding mask_eq_exp_minus_1 [symmetric]
  by (rule bit_eqI) (auto simp: bit_simps)

lemma unat_and_not_low_bits:
  fixes x :: addr
  shows "unat (x AND NOT (2 ^ n - 1)) = (unat x div 2 ^ n) * 2 ^ n"
proof -
  have "unat x div 2 ^ n * 2 ^ n \<le> unat x" by simp
  also have "unat x < 2 ^ 64" using unsigned_less [of x] by simp
  finally have small: "unat x div 2 ^ n * 2 ^ n < 2 ^ 64" .
  have "unat (push_bit n (drop_bit n x)) = take_bit 64 (push_bit n (unat (drop_bit n x)))"
    by (simp add: unsigned_push_bit_eq)
  also have "\<dots> = take_bit 64 (push_bit n (drop_bit n (unat x)))"
    by (simp only: unat_drop_bit_eq)
  also have "\<dots> = take_bit 64 (unat x div 2 ^ n * 2 ^ n)"
    by (simp only: push_bit_eq_mult drop_bit_eq_div)
  also have "\<dots> = unat x div 2 ^ n * 2 ^ n"
    using small by (simp only: take_bit_nat_eq_self)
  finally show ?thesis by (simp only: and_not_low_bits)
qed

lemma unat_two_power:
  assumes "n < 64"
  shows "unat (2 ^ n :: addr) = 2 ^ n"
proof -
  have "unat (push_bit n (1 :: addr)) = take_bit LENGTH(64) (push_bit n (unat (1 :: addr)))"
    by (rule unsigned_push_bit_eq)
  then show ?thesis using assms by (simp add: push_bit_eq_mult)
qed

lemma unat_low_bits:
  assumes "n < 64"
  shows "unat (2 ^ n - 1 :: addr) = 2 ^ n - 1"
proof -
  have "(2 ^ n :: addr) \<noteq> 0" using assms by (simp add: unat_two_power flip: unat_eq_0)
  then show ?thesis using assms by (simp add: unat_minus_one unat_two_power)
qed

lemma unat_round_up_arg:
  assumes "n < 64"
  shows "unat (sz + 2 ^ n - 1 :: addr) = (unat sz + 2 ^ n - 1) mod 2 ^ 64"
proof -
  have "sz + 2 ^ n - 1 = sz + (2 ^ n - 1)" by simp
  then have "unat (sz + 2 ^ n - 1) = (unat sz + unat (2 ^ n - 1 :: addr)) mod 2 ^ 64"
    by (simp only: unat_word_ariths) simp
  then show ?thesis using assms by (simp add: unat_low_bits)
qed

lemma map_of_map_put: "map_of (map_put k v m) = (map_of m)(k \<mapsto> v)"
  by (induction m) (auto simp: fun_eq_iff)

lemma alloc_Inr_unfold:
  assumes "android_jit_alloc st env sz rw_slot rx_slot = (Inr (rw, rx), st', calls)"
  shows "rw_slot \<and> rx_slot \<and> 0 \<le> memfd_ret env \<and> 0 \<le> ftruncate_ret env \<and>
    rw = mmap_rw_ret env \<and> rw \<noteq> MAP_FAILED \<and> rx = mmap_rx_ret env \<and> rx \<noteq> MAP_FAILED \<and>
    st' = (state_at_mmap st env)
      \<lparr>g_jit_allocations_by_rw :=
         map_put rw \<lparr>rw_ptr = rw, rx_ptr = rx,
           size_bytes = round_up_to_page (state_at_mmap st env) sz, fd = memfd_ret env\<rparr>
           (g_jit_allocations_by_rw (state_at_mmap st env)),
       g_jit_allocations_by_rx := map_put rx rw (g_jit_allocations_by_rx (state_at_mmap st env))\<rparr>"
  using assms
  by (auto simp: android_jit_alloc_def state_at_mmap_def Let_def split: if_splits)

lemma round_up_exact:
  assumes n: "n < 64" and ps: "g_page_size st = 2 ^ n"
    and nz: "round_up_to_page st sz \<noteq> 0"
  shows "unat (round_up_to_page st sz) = ((unat sz + 2 ^ n - 1) div 2 ^ n) * 2 ^ n"
proof -
  let ?x = "sz + 2 ^ n - 1 :: addr"
  have r: "unat (round_up_to_page st sz) = (unat ?x div 2 ^ n) * 2 ^ n"
    by (simp only: round_up_to_page_def ps unat_and_not_low_bits)
  have x: "unat ?x = (unat sz + 2 ^ n - 1) mod 2 ^ 64" by (rule unat_round_up_arg [OF n])
  have "unat sz + 2 ^ n - 1 < 2 ^ 64"
  proof (rule ccontr)
    assume "\<not> unat sz + 2 ^ n - 1 < 2 ^ 64"
    then have ge: "2 ^ 64 \<le> unat sz + 2 ^ n - 1" by simp
    have "unat sz < 2 ^ 64" using unsigned_less [of sz] by simp
    then have lt: "unat sz + 2 ^ n - 1 < 2 ^ 64 + 2 ^ 64"
      using power_strict_increasing [OF n, of "2::nat"] by simp
    from ge lt have "(unat sz + 2 ^ n - 1) mod 2 ^ 64 = unat sz + 2 ^ n - 1 - 2 ^ 64"
      by (simp add: mod_if)
    with x have "unat ?x < 2 ^ n"
      using \<open>unat sz < 2 ^ 64\<close> ge by simp
    then have "unat ?x div 2 ^ n = 0" by simp
    with r have "unat (round_up_to_page st sz) = 0" by simp
    with nz show False by (simp add: unat_eq_0)
  qed
  with x r show ?thesis by simp
qed

lemma regions_disjoint_distinct:
  assumes "region_ok b1 l" "regions_disjoint b1 l b2 l"
  shows "b1 \<noteq> b2"
proof
  assume "b1 = b2"
  with assms(2) have "unat l = 0" by (simp add: regions_disjoint_def)
  with assms(1) show False by (simp add: region_ok_def unat_eq_0)
qed

text \<open>
  C1: a successful \<open>allocate(size)\<close> with \<open>size > 0\<close> returns two distinct non-null
  addresses and records them, under both indexes, in one record whose length is
  \<open>size\<close> rounded up to the next multiple of the page size.
\<close>

theorem alloc_success:
  assumes ret: "android_jit_alloc st env sz rw_slot rx_slot = (Inr (rw, rx), st', calls)"
    and "0 < sz"
    and os: "os_contract st env sz"
    and page: "page_size_ok (g_page_size st')"
  shows "rw \<noteq> 0 \<and> rx \<noteq> 0 \<and> rw \<noteq> rx \<and>
     map_of (g_jit_allocations_by_rw st') rw =
       Some \<lparr>rw_ptr = rw, rx_ptr = rx, size_bytes = round_up_to_page st' sz,
             fd = memfd_ret env\<rparr> \<and>
     map_of (g_jit_allocations_by_rx st') rx = Some rw \<and>
     unat (round_up_to_page st' sz) =
       ((unat sz + unat (g_page_size st') - 1) div unat (g_page_size st')) *
         unat (g_page_size st')"
proof -
  let ?st1 = "state_at_mmap st env"
  let ?len = "round_up_to_page ?st1 sz"
  note u = alloc_Inr_unfold [OF ret]
  from u have rw: "rw = mmap_rw_ret env" "rw \<noteq> MAP_FAILED"
    and rx: "rx = mmap_rx_ret env" "rx \<noteq> MAP_FAILED" by blast+
  from u have st': "st' = ?st1
      \<lparr>g_jit_allocations_by_rw :=
         map_put rw \<lparr>rw_ptr = rw, rx_ptr = rx, size_bytes = ?len, fd = memfd_ret env\<rparr>
           (g_jit_allocations_by_rw ?st1),
       g_jit_allocations_by_rx := map_put rx rw (g_jit_allocations_by_rx ?st1)\<rparr>"
    by blast
  have ps: "g_page_size st' = g_page_size ?st1" by (subst st') simp
  have len: "round_up_to_page st' sz = ?len" by (simp add: round_up_to_page_def ps)
  from os rw rx have v_rw: "region_ok rw ?len" and v_rx: "region_ok rx ?len"
    and apart: "regions_disjoint rx ?len rw ?len"
    by (simp_all add: os_contract_def Let_def mmap_ok_def)
  have nz: "rw \<noteq> 0" "rx \<noteq> 0" "?len \<noteq> 0"
    using v_rw v_rx by (simp_all add: region_ok_def)
  have ne: "rw \<noteq> rx" using regions_disjoint_distinct [OF v_rx apart] by simp
  have by_rw: "map_of (g_jit_allocations_by_rw st') rw =
      Some \<lparr>rw_ptr = rw, rx_ptr = rx, size_bytes = round_up_to_page st' sz, fd = memfd_ret env\<rparr>"
    unfolding len by (subst st') (simp add: map_of_map_put)
  have by_rx: "map_of (g_jit_allocations_by_rx st') rx = Some rw"
    by (subst st') (simp add: map_of_map_put)
  from page obtain n where n: "n < 64" and pn: "g_page_size st' = 2 ^ n"
    by (auto simp: page_size_ok_def)
  have "unat ?len = ((unat sz + 2 ^ n - 1) div 2 ^ n) * 2 ^ n"
    using pn nz(3) by (intro round_up_exact [OF n]) (simp_all add: ps)
  then have up: "unat (round_up_to_page st' sz) =
      ((unat sz + unat (g_page_size st') - 1) div unat (g_page_size st')) *
        unat (g_page_size st')"
    by (simp only: len pn unat_two_power [OF n])
  from nz ne by_rw by_rx up show ?thesis by simp
qed

lemma os_contract_env_a: "os_contract initial_state env_a 100"
  by (simp add: os_contract_def state_at_mmap_def initial_state_def env_a_def android_jit_init_def
      round_up_to_page_def mmap_ok_def views_of_def region_ok_def regions_disjoint_def Let_def)

lemma page_size_ok_4096: "page_size_ok 4096"
  unfolding page_size_ok_def by (rule bexI [of _ 12]) simp_all

lemma alloc_env_a:
  "android_jit_alloc initial_state env_a 100 True True =
     (Inr (0x10000, 0x20000), state_a,
      [Memfd_create 3, Ftruncate 3 4096, Mmap 4096 PROT_READ_WRITE 3 0x10000,
       Mmap 4096 PROT_READ_EXEC 3 0x20000])"
  by (simp add: state_a_eq)
    (simp add: android_jit_alloc_def initial_state_def env_a_def android_jit_init_def
      round_up_to_page_def MAP_FAILED_def alloc_a_def Let_def)

theorem alloc_success_witness:
  "android_jit_alloc initial_state env_a 100 True True =
     (Inr (0x10000, 0x20000), state_a,
      [Memfd_create 3, Ftruncate 3 4096, Mmap 4096 PROT_READ_WRITE 3 0x10000,
       Mmap 4096 PROT_READ_EXEC 3 0x20000]) \<and>
   (0 :: addr) < 100 \<and> os_contract initial_state env_a 100 \<and> page_size_ok (g_page_size state_a) \<and>
   map_of (g_jit_allocations_by_rw state_a) 0x10000 =
     Some \<lparr>rw_ptr = 0x10000, rx_ptr = 0x20000, size_bytes = 4096, fd = 3\<rparr> \<and>
   map_of (g_jit_allocations_by_rx state_a) 0x20000 = Some 0x10000 \<and>
   unat (round_up_to_page state_a 100) = 4096"
proof -
  have page: "page_size_ok (g_page_size state_a)"
    by (simp add: state_a_eq page_size_ok_4096)
  have pos: "(0 :: addr) < 100" by simp
  from alloc_success [OF alloc_env_a pos os_contract_env_a page] alloc_env_a pos
    os_contract_env_a page
  show ?thesis by (simp add: state_a_eq round_up_to_page_def env_a_def)
qed

section \<open>The operations keep the registry well formed\<close>

lemma regions_disjoint_sym: "regions_disjoint b1 l1 b2 l2 \<Longrightarrow> regions_disjoint b2 l2 b1 l1"
  by (auto simp: regions_disjoint_def)

lemma regions_disjoint_bases:
  assumes "region_ok b1 l1" "region_ok b2 l2" "regions_disjoint b1 l1 b2 l2"
  shows "b1 \<noteq> b2"
proof
  assume "b1 = b2"
  with assms(3) have "unat l1 = 0 \<or> unat l2 = 0" by (auto simp: regions_disjoint_def)
  with assms(1,2) show False by (auto simp: region_ok_def unat_eq_0)
qed

lemma set_map_put_fresh:
  "k \<notin> fst ` set m \<Longrightarrow> set (map_put k v m) = insert (k, v) (set m)"
  by (induction m) (auto split: if_splits)

lemma set_map_put_subset: "set (map_put k v m) \<subseteq> insert (k, v) (set m)"
  by (induction m) (auto split: if_splits)

lemma distinct_map_put:
  "distinct (map fst m) \<Longrightarrow> k \<notin> fst ` set m \<Longrightarrow> distinct (map fst (map_put k v m))"
  by (induction m) (auto simp: set_map_put_fresh)

lemma distinct_map_erase: "distinct (map fst m) \<Longrightarrow> distinct (map fst (map_erase k m))"
  by (simp add: map_erase_def distinct_map_filter)

lemma views_of_mem:
  "e \<in> set m \<Longrightarrow>
   (rw_ptr (snd e), size_bytes (snd e)) \<in> set (views_of m) \<and>
   (rx_ptr (snd e), size_bytes (snd e)) \<in> set (views_of m)"
  by (auto simp: views_of_def)

lemma registry_okI:
  assumes "distinct (map fst (g_jit_allocations_by_rw st))"
    and "\<And>e. e \<in> set (g_jit_allocations_by_rw st) \<Longrightarrow> alloc_ok (fst e) (snd e)"
    and "\<And>e e'. e \<in> set (g_jit_allocations_by_rw st) \<Longrightarrow>
           e' \<in> set (g_jit_allocations_by_rw st) \<Longrightarrow> fst e \<noteq> fst e' \<Longrightarrow>
           allocs_apart (snd e) (snd e')"
    and "\<And>e. e \<in> set (g_jit_allocations_by_rw st) \<Longrightarrow>
           map_of (g_jit_allocations_by_rx st) (rx_ptr (snd e)) = Some (fst e)"
    and "\<And>e. e \<in> set (g_jit_allocations_by_rx st) \<Longrightarrow>
           rx_index_ok (g_jit_allocations_by_rw st) (fst e) (snd e)"
  shows "registry_ok st"
  unfolding registry_ok_def using assms by blast

lemma registry_rx_index:
  "registry_ok st \<Longrightarrow> e \<in> set (g_jit_allocations_by_rw st) \<Longrightarrow>
   map_of (g_jit_allocations_by_rx st) (rx_ptr (snd e)) = Some (fst e)"
  by (simp add: registry_ok_def)

lemma registry_rx_node:
  assumes "registry_ok st" "e \<in> set (g_jit_allocations_by_rx st)"
  obtains b where "map_of (g_jit_allocations_by_rw st) (snd e) = Some b" "rx_ptr b = fst e"
proof -
  from assms have "rx_index_ok (g_jit_allocations_by_rw st) (fst e) (snd e)"
    by (simp add: registry_ok_def)
  then show thesis using that by (auto simp: rx_index_ok_def split: option.splits)
qed

lemma registry_distinct: "registry_ok st \<Longrightarrow> distinct (map fst (g_jit_allocations_by_rw st))"
  by (simp add: registry_ok_def)

lemma registry_ok_cong:
  "g_jit_allocations_by_rw st' = g_jit_allocations_by_rw st \<Longrightarrow>
   g_jit_allocations_by_rx st' = g_jit_allocations_by_rx st \<Longrightarrow>
   registry_ok st' = registry_ok st"
  by (simp add: registry_ok_def)

lemma init_keeps_registry:
  "g_jit_allocations_by_rw (android_jit_init st pg) = g_jit_allocations_by_rw st \<and>
   g_jit_allocations_by_rx (android_jit_init st pg) = g_jit_allocations_by_rx st"
  by (simp add: android_jit_init_def)

lemma init_registry_ok: "registry_ok (android_jit_init st pg) = registry_ok st"
  by (rule registry_ok_cong) (simp_all add: init_keeps_registry)

lemma shutdown_registry_ok: "registry_ok (fst (android_jit_shutdown st))"
  by (simp add: android_jit_shutdown_def registry_ok_def)

lemma initial_registry_ok: "registry_ok initial_state"
  by (simp add: initial_state_def registry_ok_def)

lemma free_registry_ok:
  assumes ok: "registry_ok st"
  shows "registry_ok (fst (android_jit_free st rw rx sz))"
proof (cases "rw = 0 \<and> rx = 0 \<or> map_of (g_jit_allocations_by_rw st) rw = None")
  case True
  then have "android_jit_free st rw rx sz = (st, [])"
    by (auto simp: android_jit_free_def)
  with ok show ?thesis by simp
next
  case False
  then obtain a where a: "map_of (g_jit_allocations_by_rw st) rw = Some a" by auto
  let ?m = "g_jit_allocations_by_rw st"
  let ?x = "g_jit_allocations_by_rx st"
  let ?st' = "fst (android_jit_free st rw rx sz)"
  from a have ea: "(rw, a) \<in> set ?m" by (rule map_of_SomeD)
  have m': "g_jit_allocations_by_rw ?st' = map_erase rw ?m"
    and x': "g_jit_allocations_by_rx ?st' = map_erase (rx_ptr a) ?x"
    using False a by (auto simp: android_jit_free_def)
  have rest: "e \<in> set ?m \<and> fst e \<noteq> rw" if "e \<in> set (map_erase rw ?m)" for e
    using that by (simp add: set_map_erase)
  have other_rx: "rx_ptr (snd e) \<noteq> rx_ptr a" if "e \<in> set ?m" "fst e \<noteq> rw" for e
  proof -
    have "allocs_apart (snd e) (snd (rw, a))"
      using registry_apart [OF ok that(1) ea] that(2) by simp
    moreover have "alloc_ok (fst e) (snd e)" by (rule registry_entry_ok [OF ok that(1)])
    moreover have "alloc_ok rw a" using registry_entry_ok [OF ok ea] by simp
    ultimately show ?thesis
      by (auto simp: allocs_apart_def alloc_ok_def dest: regions_disjoint_bases)
  qed
  show ?thesis
  proof (rule registry_okI)
    show "distinct (map fst (g_jit_allocations_by_rw ?st'))"
      unfolding m' by (rule distinct_map_erase [OF registry_distinct [OF ok]])
  next
    fix e assume "e \<in> set (g_jit_allocations_by_rw ?st')"
    then have "e \<in> set ?m" using rest by (simp add: m')
    then show "alloc_ok (fst e) (snd e)" by (rule registry_entry_ok [OF ok])
  next
    fix e e' assume "e \<in> set (g_jit_allocations_by_rw ?st')"
      "e' \<in> set (g_jit_allocations_by_rw ?st')" "fst e \<noteq> fst e'"
    then show "allocs_apart (snd e) (snd e')"
      using rest registry_apart [OF ok] by (simp add: m')
  next
    fix e assume "e \<in> set (g_jit_allocations_by_rw ?st')"
    then have e: "e \<in> set ?m" "fst e \<noteq> rw" using rest by (simp_all add: m')
    then show "map_of (g_jit_allocations_by_rx ?st') (rx_ptr (snd e)) = Some (fst e)"
      using other_rx [OF e] registry_rx_index [OF ok e(1)]
      by (simp add: x' map_of_map_erase)
  next
    fix e assume "e \<in> set (g_jit_allocations_by_rx ?st')"
    then have e: "e \<in> set ?x" "fst e \<noteq> rx_ptr a" by (simp_all add: x' set_map_erase)
    from registry_rx_node [OF ok e(1)] obtain b
      where b: "map_of ?m (snd e) = Some b" "rx_ptr b = fst e" by blast
    have "snd e \<noteq> rw" using a b e(2) by auto
    with b show "rx_index_ok (g_jit_allocations_by_rw ?st') (fst e) (snd e)"
      by (simp add: rx_index_ok_def m' map_of_map_erase)
  qed
qed

lemma alloc_registry_ok:
  assumes ok: "registry_ok st" and os: "os_contract st env sz"
  shows "registry_ok (fst (snd (android_jit_alloc st env sz rw_slot rx_slot)))"
proof (cases "\<exists>rw rx st' calls.
    android_jit_alloc st env sz rw_slot rx_slot = (Inr (rw, rx), st', calls)")
  case False
  have same: "g_jit_allocations_by_rw (state_at_mmap st env) = g_jit_allocations_by_rw st"
    "g_jit_allocations_by_rx (state_at_mmap st env) = g_jit_allocations_by_rx st"
    by (simp_all add: state_at_mmap_def init_keeps_registry)
  from False have "fst (snd (android_jit_alloc st env sz rw_slot rx_slot)) = st \<or>
      fst (snd (android_jit_alloc st env sz rw_slot rx_slot)) = state_at_mmap st env"
    by (auto simp: android_jit_alloc_def state_at_mmap_def Let_def)
  then show ?thesis using ok registry_ok_cong [OF same] by auto
next
  case True
  then obtain rw rx st' calls
    where ret: "android_jit_alloc st env sz rw_slot rx_slot = (Inr (rw, rx), st', calls)"
    by blast
  let ?st1 = "state_at_mmap st env"
  let ?len = "round_up_to_page ?st1 sz"
  let ?a = "\<lparr>rw_ptr = rw, rx_ptr = rx, size_bytes = ?len, fd = memfd_ret env\<rparr>"
  let ?m = "g_jit_allocations_by_rw st"
  let ?x = "g_jit_allocations_by_rx st"
  note u = alloc_Inr_unfold [OF ret]
  have same: "g_jit_allocations_by_rw ?st1 = ?m" "g_jit_allocations_by_rx ?st1 = ?x"
    by (simp_all add: state_at_mmap_def init_keeps_registry)
  from u have rw: "rw = mmap_rw_ret env" "rw \<noteq> MAP_FAILED"
    and rx: "rx = mmap_rx_ret env" "rx \<noteq> MAP_FAILED"
    and fd: "0 \<le> memfd_ret env" by blast+
  from u have "st' = ?st1
      \<lparr>g_jit_allocations_by_rw := map_put rw ?a (g_jit_allocations_by_rw ?st1),
       g_jit_allocations_by_rx := map_put rx rw (g_jit_allocations_by_rx ?st1)\<rparr>"
    by blast
  then have m': "g_jit_allocations_by_rw st' = map_put rw ?a ?m"
    and x': "g_jit_allocations_by_rx st' = map_put rx rw ?x"
    by (simp_all add: same)
  from os rw rx have v_rw: "region_ok rw ?len" and v_rx: "region_ok rx ?len"
    and apart: "regions_disjoint rx ?len rw ?len"
    and free_rw: "\<And>r. r \<in> set (views_of ?m) \<Longrightarrow> regions_disjoint rw ?len (fst r) (snd r)"
    and free_rx: "\<And>r. r \<in> set (views_of ?m) \<Longrightarrow> regions_disjoint rx ?len (fst r) (snd r)"
    by (simp_all add: os_contract_def Let_def mmap_ok_def)
  have new_ok: "alloc_ok rw ?a"
    using v_rw v_rx fd regions_disjoint_sym [OF apart] by (simp add: alloc_ok_def)
  have new_old: "allocs_apart ?a (snd e)" if "e \<in> set ?m" for e
    using views_of_mem [OF that] free_rw free_rx by (fastforce simp: allocs_apart_def)
  have old_new: "allocs_apart (snd e) ?a" if "e \<in> set ?m" for e
    using new_old [OF that] by (simp add: allocs_apart_def regions_disjoint_sym)
  have old_bases: "fst e \<noteq> rw \<and> rx_ptr (snd e) \<noteq> rx" if "e \<in> set ?m" for e
  proof -
    have "alloc_ok (fst e) (snd e)" by (rule registry_entry_ok [OF ok that])
    with new_old [OF that] v_rw v_rx show ?thesis
      by (auto simp: allocs_apart_def alloc_ok_def dest: regions_disjoint_bases)
  qed
  then have fresh: "rw \<notin> fst ` set ?m" by auto
  have set': "set (g_jit_allocations_by_rw st') = insert (rw, ?a) (set ?m)"
    unfolding m' by (rule set_map_put_fresh [OF fresh])
  have "registry_ok st'"
  proof (rule registry_okI)
    show "distinct (map fst (g_jit_allocations_by_rw st'))"
      unfolding m' by (rule distinct_map_put [OF registry_distinct [OF ok] fresh])
  next
    fix e assume "e \<in> set (g_jit_allocations_by_rw st')"
    then show "alloc_ok (fst e) (snd e)"
      using new_ok registry_entry_ok [OF ok] by (auto simp: set')
  next
    fix e e' assume "e \<in> set (g_jit_allocations_by_rw st')"
      "e' \<in> set (g_jit_allocations_by_rw st')" "fst e \<noteq> fst e'"
    then have e: "e = (rw, ?a) \<or> e \<in> set ?m" and e': "e' = (rw, ?a) \<or> e' \<in> set ?m"
      and ne: "fst e \<noteq> fst e'" by (simp_all add: set')
    from e show "allocs_apart (snd e) (snd e')"
    proof
      assume new: "e = (rw, ?a)"
      with e' ne have "e' \<in> set ?m" by auto
      then show ?thesis using new_old new by simp
    next
      assume old: "e \<in> set ?m"
      from e' show ?thesis
      proof
        assume "e' = (rw, ?a)"
        then show ?thesis using old_new [OF old] by simp
      next
        assume "e' \<in> set ?m"
        then show ?thesis using registry_apart [OF ok old] ne by simp
      qed
    qed
  next
    fix e assume "e \<in> set (g_jit_allocations_by_rw st')"
    then have "e = (rw, ?a) \<or> e \<in> set ?m" by (simp add: set')
    then show "map_of (g_jit_allocations_by_rx st') (rx_ptr (snd e)) = Some (fst e)"
    proof
      assume "e = (rw, ?a)"
      then show ?thesis by (simp add: x' map_of_map_put)
    next
      assume old: "e \<in> set ?m"
      then show ?thesis
        using old_bases [OF old] registry_rx_index [OF ok old] by (simp add: x' map_of_map_put)
    qed
  next
    fix e assume "e \<in> set (g_jit_allocations_by_rx st')"
    then have "e = (rx, rw) \<or> e \<in> set ?x"
      using set_map_put_subset [of rx rw ?x] by (auto simp: x')
    then show "rx_index_ok (g_jit_allocations_by_rw st') (fst e) (snd e)"
    proof
      assume "e = (rx, rw)"
      then show ?thesis by (simp add: rx_index_ok_def m' map_of_map_put)
    next
      assume e: "e \<in> set ?x"
      from registry_rx_node [OF ok e] obtain b
        where b: "map_of ?m (snd e) = Some b" "rx_ptr b = fst e" by blast
      from b(1) have "(snd e, b) \<in> set ?m" by (rule map_of_SomeD)
      then have "snd e \<noteq> rw" using old_bases by fastforce
      with b show ?thesis by (simp add: rx_index_ok_def m' map_of_map_put)
    qed
  qed
  with ret show ?thesis by simp
qed

lemma page_size_keeps_registry:
  "g_jit_allocations_by_rw (android_jit_page_size st pg) = g_jit_allocations_by_rw st \<and>
   g_jit_allocations_by_rx (android_jit_page_size st pg) = g_jit_allocations_by_rx st"
  by (simp add: android_jit_page_size_def)

lemma reachable_registry_ok: "reachable st \<Longrightarrow> registry_ok st"
proof (induction rule: reachable.induct)
  case start
  show ?case by (rule initial_registry_ok)
next
  case (init st pagesize)
  then show ?case by (simp add: init_registry_ok)
next
  case (shutdown st)
  show ?case by (rule shutdown_registry_ok)
next
  case (alloc st env sz rw_slot rx_slot)
  then show ?case by (simp add: alloc_registry_ok)
next
  case (free st rw rx sz)
  then show ?case by (simp add: free_registry_ok)
next
  case (page_size st pagesize)
  then show ?case
    using registry_ok_cong [of "android_jit_page_size st pagesize" st]
    by (simp add: page_size_keeps_registry)
qed

lemma init_page_size_ok:
  assumes "sysconf_ok pagesize" "g_initialized st \<longrightarrow> page_size_ok (g_page_size st)"
  shows "g_initialized (android_jit_init st pagesize) \<and>
         page_size_ok (g_page_size (android_jit_init st pagesize))"
  using assms by (auto simp: android_jit_init_def sysconf_ok_def page_size_ok_4096)

lemma alloc_page_size:
  "g_initialized (fst (snd (android_jit_alloc st env sz rw_slot rx_slot))) \<longrightarrow>
   g_initialized (state_at_mmap st env) \<and>
   g_page_size (fst (snd (android_jit_alloc st env sz rw_slot rx_slot))) =
     g_page_size (state_at_mmap st env)"
  by (auto simp: android_jit_alloc_def state_at_mmap_def Let_def android_jit_init_def)

text \<open>
  Whenever the subsystem is Initialized its page size is a power of two, and the
  registry is well formed in every state.
\<close>

lemma reachable_page_size_ok:
  "reachable st \<Longrightarrow> g_initialized st \<longrightarrow> page_size_ok (g_page_size st)"
proof (induction rule: reachable.induct)
  case start
  show ?case by (simp add: initial_state_def)
next
  case (init st pagesize)
  then show ?case using init_page_size_ok [of pagesize st] by blast
next
  case (shutdown st)
  show ?case by (simp add: android_jit_shutdown_def)
next
  case (alloc st env sz rw_slot rx_slot)
  have "g_initialized (state_at_mmap st env) \<longrightarrow> page_size_ok (g_page_size (state_at_mmap st env))"
    using alloc.hyps(2) alloc.IH init_page_size_ok [of "sysconf_ret env" st]
    by (auto simp: state_at_mmap_def)
  then show ?case using alloc_page_size [of st env sz rw_slot rx_slot] by auto
next
  case (free st rw rx sz)
  then show ?case by (auto simp: android_jit_free_def split: option.splits)
next
  case (page_size st pagesize)
  then show ?case
    by (auto simp: android_jit_page_size_def sysconf_ok_def page_size_ok_4096 page_size_ok_def)
qed

lemma sysconf_ok_4096: "sysconf_ok 4096"
  by (simp add: sysconf_ok_def page_size_ok_4096)

lemma reachable_state_a: "reachable state_a"
  unfolding state_a_def
  by (rule reachable.alloc [OF reachable.start _ os_contract_env_a])
    (simp add: env_a_def sysconf_ok_4096)

lemma os_contract_env_b: "os_contract state_a env_b 4096"
  by (simp add: os_contract_def state_at_mmap_def state_a_eq env_b_def alloc_a_def
      round_up_to_page_def mmap_ok_def views_of_def region_ok_def regions_disjoint_def Let_def
      MAP_FAILED_def)

lemma reachable_state_ab: "reachable state_ab"
  unfolding state_ab_def
  by (rule reachable.alloc [OF reachable_state_a _ os_contract_env_b])
    (simp add: env_b_def sysconf_ok_4096)

section \<open>Failure of the second mapping\<close>

lemma lookups_cong:
  assumes "g_jit_allocations_by_rw st' = g_jit_allocations_by_rw st"
    and "g_jit_allocations_by_rx st' = g_jit_allocations_by_rx st"
  shows "android_jit_rw_to_rx st' = android_jit_rw_to_rx st \<and>
         android_jit_rx_to_rw st' = android_jit_rx_to_rw st"
  using assms
  by (simp add: fun_eq_iff android_jit_rw_to_rx_def android_jit_rx_to_rw_def
      cong: option.case_cong)

lemma state_at_mmap_registry:
  "g_jit_allocations_by_rw (state_at_mmap st env) = g_jit_allocations_by_rw st \<and>
   g_jit_allocations_by_rx (state_at_mmap st env) = g_jit_allocations_by_rx st"
  by (simp add: state_at_mmap_def init_keeps_registry)

lemma alloc_rx_failure:
  assumes "rw_slot" "rx_slot" "0 \<le> memfd_ret env" "0 \<le> ftruncate_ret env"
    and "mmap_rw_ret env \<noteq> MAP_FAILED" "mmap_rx_ret env = MAP_FAILED"
  shows "android_jit_alloc st env sz rw_slot rx_slot =
    (Inl Mmap_rx_failed, state_at_mmap st env,
     [Memfd_create (memfd_ret env),
      Ftruncate (memfd_ret env) (round_up_to_page (state_at_mmap st env) sz),
      Mmap (round_up_to_page (state_at_mmap st env) sz) PROT_READ_WRITE (memfd_ret env)
        (mmap_rw_ret env),
      Mmap (round_up_to_page (state_at_mmap st env) sz) PROT_READ_EXEC (memfd_ret env)
        MAP_FAILED,
      Munmap (mmap_rw_ret env) (round_up_to_page (state_at_mmap st env) sz),
      Close (memfd_ret env)])"
  using assms by (simp add: android_jit_alloc_def state_at_mmap_def Let_def)

text \<open>
  C6: when the second mapping fails after the first succeeded, \<open>allocate\<close> unmaps the
  first mapping and closes the backing descriptor as its last two system calls, returns
  the error, and leaves both indexes, and with them every translation lookup, as they were.
\<close>

theorem second_mapping_failure_rolls_back:
  assumes "rw_slot" "rx_slot" "0 \<le> memfd_ret env" "0 \<le> ftruncate_ret env"
    and "mmap_rw_ret env \<noteq> MAP_FAILED" "mmap_rx_ret env = MAP_FAILED"
    and "android_jit_alloc st env sz rw_slot rx_slot = (res, st', calls)"
  shows "res = Inl Mmap_rx_failed \<and>
    drop 4 calls = [Munmap (mmap_rw_ret env) (round_up_to_page st' sz), Close (memfd_ret env)] \<and>
    take 4 calls =
      [Memfd_create (memfd_ret env), Ftruncate (memfd_ret env) (round_up_to_page st' sz),
       Mmap (round_up_to_page st' sz) PROT_READ_WRITE (memfd_ret env) (mmap_rw_ret env),
       Mmap (round_up_to_page st' sz) PROT_READ_EXEC (memfd_ret env) MAP_FAILED] \<and>
    g_jit_allocations_by_rw st' = g_jit_allocations_by_rw st \<and>
    g_jit_allocations_by_rx st' = g_jit_allocations_by_rx st \<and>
    android_jit_rw_to_rx st' = android_jit_rw_to_rx st \<and>
    android_jit_rx_to_rw st' = android_jit_rx_to_rw st \<and>
    (g_initialized st \<longrightarrow> st' = st)"
proof -
  from assms(7) alloc_rx_failure [OF assms(1-6), of st sz]
  have res: "res = Inl Mmap_rx_failed" and st': "st' = state_at_mmap st env"
    and calls: "calls =
     [Memfd_create (memfd_ret env),
      Ftruncate (memfd_ret env) (round_up_to_page (state_at_mmap st env) sz),
      Mmap (round_up_to_page (state_at_mmap st env) sz) PROT_READ_WRITE (memfd_ret env)
        (mmap_rw_ret env),
      Mmap (round_up_to_page (state_at_mmap st env) sz) PROT_READ_EXEC (memfd_ret env)
        MAP_FAILED,
      Munmap (mmap_rw_ret env) (round_up_to_page (state_at_mmap st env) sz),
      Close (memfd_ret env)]"
    by auto
  have reg: "g_jit_allocations_by_rw st' = g_jit_allocations_by_rw st"
    "g_jit_allocations_by_rx st' = g_jit_allocations_by_rx st"
    by (simp_all add: st' state_at_mmap_registry)
  have same: "g_initialized st \<longrightarrow> st' = st" by (simp add: st' state_at_mmap_def)
  from res calls reg lookups_cong [OF reg] same show ?thesis by (simp add: st')
qed

theorem second_mapping_failure_rolls_back_witness:
  "(0 :: int) \<le> memfd_ret env_rx_fails \<and> 0 \<le> ftruncate_ret env_rx_fails \<and>
   mmap_rw_ret env_rx_fails \<noteq> MAP_FAILED \<and> mmap_rx_ret env_rx_fails = MAP_FAILED \<and>
   android_jit_alloc state_a env_rx_fails 100 True True =
     (Inl Mmap_rx_failed, state_a,
      [Memfd_create 4, Ftruncate 4 4096, Mmap 4096 PROT_READ_WRITE 4 0x11000,
       Mmap 4096 PROT_READ_EXEC 4 MAP_FAILED, Munmap 0x11000 4096, Close 4]) \<and>
   android_jit_rw_to_rx state_a 0x11000 = Some 0"
proof -
  have h: "(0 :: int) \<le> memfd_ret env_rx_fails" "0 \<le> ftruncate_ret env_rx_fails"
    "mmap_rw_ret env_rx_fails \<noteq> MAP_FAILED" "mmap_rx_ret env_rx_fails = MAP_FAILED"
    by (simp_all add: env_rx_fails_def MAP_FAILED_def)
  obtain res st' calls
    where r: "android_jit_alloc state_a env_rx_fails 100 True True = (res, st', calls)"
    by (metis prod_cases3)
  have init: "g_initialized state_a" by (simp add: state_a_eq)
  from second_mapping_failure_rolls_back [OF TrueI TrueI h r] init
  have "res = Inl Mmap_rx_failed" and "st' = state_a"
    and "drop 4 calls = [Munmap 0x11000 4096, Close 4]"
    and "take 4 calls = [Memfd_create 4, Ftruncate 4 4096, Mmap 4096 PROT_READ_WRITE 4 0x11000,
       Mmap 4096 PROT_READ_EXEC 4 MAP_FAILED]"
    by (simp_all add: env_rx_fails_def state_a_eq round_up_to_page_def)
  moreover have "calls = take 4 calls @ drop 4 calls" by simp
  ultimately have "calls = [Memfd_create 4, Ftruncate 4 4096, Mmap 4096 PROT_READ_WRITE 4 0x11000,
       Mmap 4096 PROT_READ_EXEC 4 MAP_FAILED, Munmap 0x11000 4096, Close 4]"
    by (metis append_Cons append_Nil)
  moreover have "android_jit_rw_to_rx state_a 0x11000 = Some 0"
    by (simp add: state_a_eq android_jit_rw_to_rx_def alloc_a_def)
  ultimately show ?thesis
    using h r \<open>res = Inl Mmap_rx_failed\<close> \<open>st' = state_a\<close> by simp
qed

section \<open>Invalid arguments\<close>

lemma round_up_zero: "round_up_to_page st 0 = 0"
  by (simp add: round_up_to_page_def)

lemma alloc_null_slot:
  "\<not> rw_slot \<or> \<not> rx_slot \<Longrightarrow>
   android_jit_alloc st env sz rw_slot rx_slot = (Inl EINVAL_null_slot, st, [])"
  by (auto simp: android_jit_alloc_def)

lemma alloc_zero_size:
  assumes "os_contract st env 0"
  shows "android_jit_alloc st env 0 True True =
    (if memfd_ret env < 0 then
       (Inl Memfd_create_failed, state_at_mmap st env, [Memfd_create (memfd_ret env)])
     else if ftruncate_ret env < 0 then
       (Inl Ftruncate_failed, state_at_mmap st env,
        [Memfd_create (memfd_ret env), Ftruncate (memfd_ret env) 0, Close (memfd_ret env)])
     else
       (Inl Mmap_rw_failed, state_at_mmap st env,
        [Memfd_create (memfd_ret env), Ftruncate (memfd_ret env) 0,
         Mmap 0 PROT_READ_WRITE (memfd_ret env) MAP_FAILED, Close (memfd_ret env)]))"
proof -
  from assms have "mmap_rw_ret env = MAP_FAILED"
    by (simp add: os_contract_def Let_def mmap_ok_def round_up_zero region_ok_def)
  then show ?thesis
    by (simp add: android_jit_alloc_def state_at_mmap_def Let_def round_up_zero)
qed

lemma os_contract_env_len0: "os_contract state_a env_len0 0"
  by (simp add: os_contract_def Let_def mmap_ok_def env_len0_def)

lemma alloc_env_len0:
  "android_jit_alloc state_a env_len0 0 True True =
     (Inl Mmap_rw_failed, state_a,
      [Memfd_create 4, Ftruncate 4 0, Mmap 0 PROT_READ_WRITE 4 MAP_FAILED, Close 4])"
  by (simp add: alloc_zero_size [OF os_contract_env_len0])
    (simp add: env_len0_def state_at_mmap_def state_a_eq)

section \<open>Lifecycle\<close>

lemma init_idempotent: "g_initialized st \<Longrightarrow> android_jit_init st pagesize = st"
  by (simp add: android_jit_init_def)

lemma shutdown_state:
  "g_jit_allocations_by_rw (fst (android_jit_shutdown st)) = [] \<and>
   g_jit_allocations_by_rx (fst (android_jit_shutdown st)) = [] \<and>
   \<not> g_initialized (fst (android_jit_shutdown st)) \<and>
   g_page_size (fst (android_jit_shutdown st)) = g_page_size st"
  by (simp add: android_jit_shutdown_def)

lemma empty_registry_lookups:
  assumes "g_jit_allocations_by_rw st = []" "g_jit_allocations_by_rx st = []"
  shows "android_jit_rw_to_rx st p = Some 0 \<and> android_jit_rx_to_rw st p = Some 0"
  using assms by (simp add: android_jit_rw_to_rx_def android_jit_rx_to_rw_def)

lemma unmap_and_close_ok:
  assumes "alloc_ok k a"
  shows "unmap_and_close a =
    [Munmap (rw_ptr a) (size_bytes a), Munmap (rx_ptr a) (size_bytes a), Close (fd a)]"
  using assms by (simp add: unmap_and_close_def alloc_ok_def region_ok_def)

lemma shutdown_releases:
  assumes ok: "registry_ok st" and op: "open_allocation st a"
  shows "set [Munmap (rw_ptr a) (size_bytes a), Munmap (rx_ptr a) (size_bytes a), Close (fd a)]
    \<subseteq> set (snd (android_jit_shutdown st))"
proof -
  have "(rw_ptr a, a) \<in> set (g_jit_allocations_by_rw st)" by (rule open_allocation_mem [OF op])
  then have "set (unmap_and_close a) \<subseteq> set (snd (android_jit_shutdown st))"
    by (force simp: android_jit_shutdown_def)
  then show ?thesis
    by (simp only: unmap_and_close_ok [OF open_allocation_ok [OF ok op]])
qed

lemma alloc_succeeds:
  assumes "0 \<le> memfd_ret env" "0 \<le> ftruncate_ret env"
    and "mmap_rw_ret env \<noteq> MAP_FAILED" "mmap_rx_ret env \<noteq> MAP_FAILED"
  shows "fst (android_jit_alloc st env sz True True) = Inr (mmap_rw_ret env, mmap_rx_ret env) \<and>
    open_allocation (fst (snd (android_jit_alloc st env sz True True)))
      \<lparr>rw_ptr = mmap_rw_ret env, rx_ptr = mmap_rx_ret env,
       size_bytes = round_up_to_page (fst (snd (android_jit_alloc st env sz True True))) sz,
       fd = memfd_ret env\<rparr> \<and>
    g_initialized (fst (snd (android_jit_alloc st env sz True True)))"
  using assms
  by (simp add: android_jit_alloc_def Let_def open_allocation_def map_of_map_put
      round_up_to_page_def android_jit_init_def)

lemma usable_after_restart:
  assumes os: "os_contract (android_jit_init (fst (android_jit_shutdown st)) pagesize) env sz"
    and ret: "0 \<le> memfd_ret env" "0 \<le> ftruncate_ret env"
      "mmap_rw_ret env \<noteq> MAP_FAILED" "mmap_rx_ret env \<noteq> MAP_FAILED"
    and st3: "st3 = fst (snd (android_jit_alloc
        (android_jit_init (fst (android_jit_shutdown st)) pagesize) env sz True True))"
    and k: "k < round_up_to_page st3 sz"
  shows "fst (android_jit_alloc
        (android_jit_init (fst (android_jit_shutdown st)) pagesize) env sz True True) =
      Inr (mmap_rw_ret env, mmap_rx_ret env) \<and>
    android_jit_rw_to_rx st3 (mmap_rw_ret env + k) = Some (mmap_rx_ret env + k) \<and>
    android_jit_rx_to_rw st3 (mmap_rx_ret env + k) = Some (mmap_rw_ret env + k)"
proof -
  let ?st2 = "android_jit_init (fst (android_jit_shutdown st)) pagesize"
  let ?a = "\<lparr>rw_ptr = mmap_rw_ret env, rx_ptr = mmap_rx_ret env,
       size_bytes = round_up_to_page st3 sz, fd = memfd_ret env\<rparr>"
  have "registry_ok ?st2" by (simp add: init_registry_ok shutdown_registry_ok)
  then have ok: "registry_ok st3" unfolding st3 using os by (rule alloc_registry_ok)
  note s = alloc_succeeds [OF ret, of ?st2 sz]
  from s have op: "open_allocation st3 ?a" unfolding st3 by blast
  have "k < size_bytes ?a" using k by simp
  from interior_lookups [OF ok op this] s show ?thesis by simp
qed

text \<open>
  C9: \<open>init\<close> in the Initialized state changes nothing; \<open>shutdown\<close> from any state
  releases every open allocation (both views unmapped, the descriptor closed), leaves both
  indexes empty, so that every lookup answers not-found, and leaves the subsystem
  Uninitialized; after \<open>shutdown\<close> and a fresh \<open>init\<close>, \<open>allocate\<close> succeeds when the
  system calls do, and the lookups translate every address of the new allocation.
\<close>

theorem lifecycle:
  "(g_initialized st \<longrightarrow> android_jit_init st pagesize = st) \<and>
   g_jit_allocations_by_rw (fst (android_jit_shutdown st)) = [] \<and>
   g_jit_allocations_by_rx (fst (android_jit_shutdown st)) = [] \<and>
   \<not> g_initialized (fst (android_jit_shutdown st)) \<and>
   android_jit_rw_to_rx (fst (android_jit_shutdown st)) p = Some 0 \<and>
   android_jit_rx_to_rw (fst (android_jit_shutdown st)) p = Some 0 \<and>
   (registry_ok st \<and> open_allocation st a \<longrightarrow>
      set [Munmap (rw_ptr a) (size_bytes a), Munmap (rx_ptr a) (size_bytes a), Close (fd a)]
        \<subseteq> set (snd (android_jit_shutdown st))) \<and>
   (os_contract (android_jit_init (fst (android_jit_shutdown st)) pagesize) env sz \<and>
    0 \<le> memfd_ret env \<and> 0 \<le> ftruncate_ret env \<and>
    mmap_rw_ret env \<noteq> MAP_FAILED \<and> mmap_rx_ret env \<noteq> MAP_FAILED \<and>
    st3 = fst (snd (android_jit_alloc
        (android_jit_init (fst (android_jit_shutdown st)) pagesize) env sz True True)) \<and>
    k < round_up_to_page st3 sz \<longrightarrow>
      fst (android_jit_alloc
          (android_jit_init (fst (android_jit_shutdown st)) pagesize) env sz True True) =
        Inr (mmap_rw_ret env, mmap_rx_ret env) \<and>
      android_jit_rw_to_rx st3 (mmap_rw_ret env + k) = Some (mmap_rx_ret env + k) \<and>
      android_jit_rx_to_rw st3 (mmap_rx_ret env + k) = Some (mmap_rw_ret env + k))"
proof -
  have 1: "g_initialized st \<longrightarrow> android_jit_init st pagesize = st"
    by (simp add: init_idempotent)
  note 2 = shutdown_state [of st]
  have 3: "android_jit_rw_to_rx (fst (android_jit_shutdown st)) p = Some 0 \<and>
      android_jit_rx_to_rw (fst (android_jit_shutdown st)) p = Some 0"
    using 2 by (intro empty_registry_lookups) simp_all
  have 4: "registry_ok st \<and> open_allocation st a \<longrightarrow>
      set [Munmap (rw_ptr a) (size_bytes a), Munmap (rx_ptr a) (size_bytes a), Close (fd a)]
        \<subseteq> set (snd (android_jit_shutdown st))"
    using shutdown_releases [of st a] by blast
  have 5: "os_contract (android_jit_init (fst (android_jit_shutdown st)) pagesize) env sz \<and>
    0 \<le> memfd_ret env \<and> 0 \<le> ftruncate_ret env \<and>
    mmap_rw_ret env \<noteq> MAP_FAILED \<and> mmap_rx_ret env \<noteq> MAP_FAILED \<and>
    st3 = fst (snd (android_jit_alloc
        (android_jit_init (fst (android_jit_shutdown st)) pagesize) env sz True True)) \<and>
    k < round_up_to_page st3 sz \<longrightarrow>
      fst (android_jit_alloc
          (android_jit_init (fst (android_jit_shutdown st)) pagesize) env sz True True) =
        Inr (mmap_rw_ret env, mmap_rx_ret env) \<and>
      android_jit_rw_to_rx st3 (mmap_rw_ret env + k) = Some (mmap_rx_ret env + k) \<and>
      android_jit_rx_to_rw st3 (mmap_rx_ret env + k) = Some (mmap_rw_ret env + k)"
    using usable_after_restart [of st pagesize env sz st3 k] by blast
  from 1 2 3 4 5 show ?thesis by blast
qed

lemma restart_state_ab:
  "android_jit_init (fst (android_jit_shutdown state_ab)) 4096 =
     \<lparr>g_jit_allocations_by_rw = [], g_jit_allocations_by_rx = [],
      g_page_size = 4096, g_initialized = True\<rparr>"
  by (simp add: state_ab_eq android_jit_shutdown_def android_jit_init_def)

lemma shutdown_calls_state_ab:
  "snd (android_jit_shutdown state_ab) =
     [Munmap 0x10000 4096, Munmap 0x20000 4096, Close 3,
      Munmap 0x11000 4096, Munmap 0x21000 4096, Close 4]"
  by (simp add: state_ab_eq android_jit_shutdown_def unmap_and_close_def alloc_a_def alloc_b_def)

theorem lifecycle_witness:
  "g_initialized state_ab \<and> android_jit_init state_ab 4096 = state_ab \<and>
   registry_ok state_ab \<and> open_allocation state_ab alloc_a \<and>
   snd (android_jit_shutdown state_ab) =
     [Munmap 0x10000 4096, Munmap 0x20000 4096, Close 3,
      Munmap 0x11000 4096, Munmap 0x21000 4096, Close 4] \<and>
   android_jit_rw_to_rx state_ab 0x10010 = Some 0x20010 \<and>
   android_jit_rw_to_rx (fst (android_jit_shutdown state_ab)) 0x10010 = Some 0 \<and>
   os_contract (android_jit_init (fst (android_jit_shutdown state_ab)) 4096) env_a 100 \<and>
   state_a = fst (snd (android_jit_alloc
     (android_jit_init (fst (android_jit_shutdown state_ab)) 4096) env_a 100 True True)) \<and>
   (16 :: addr) < round_up_to_page state_a 100 \<and>
   android_jit_rw_to_rx state_a (0x10000 + 16) = Some (0x20000 + 16) \<and>
   android_jit_rx_to_rw state_a (0x20000 + 16) = Some (0x10000 + 16)"
proof -
  let ?st2 = "android_jit_init (fst (android_jit_shutdown state_ab)) 4096"
  have i: "g_initialized state_ab" by (simp add: state_ab_eq)
  have before: "android_jit_rw_to_rx state_ab 0x10010 = Some 0x20010"
    by (simp add: state_ab_eq android_jit_rw_to_rx_def alloc_a_def alloc_b_def)
  have os: "os_contract ?st2 env_a 100"
    unfolding restart_state_ab
    by (simp add: os_contract_def state_at_mmap_def env_a_def
      round_up_to_page_def mmap_ok_def views_of_def region_ok_def regions_disjoint_def Let_def)
  have st3: "state_a = fst (snd (android_jit_alloc ?st2 env_a 100 True True))"
    unfolding restart_state_ab state_a_eq
    by (simp add: android_jit_alloc_def env_a_def round_up_to_page_def MAP_FAILED_def
      alloc_a_def Let_def)
  have k: "(16 :: addr) < round_up_to_page state_a 100"
    by (simp add: state_a_eq round_up_to_page_def)
  have env: "0 \<le> memfd_ret env_a" "0 \<le> ftruncate_ret env_a"
    "mmap_rw_ret env_a \<noteq> MAP_FAILED" "mmap_rx_ret env_a \<noteq> MAP_FAILED"
    "mmap_rw_ret env_a = 0x10000" "mmap_rx_ret env_a = 0x20000"
    by (simp_all add: env_a_def MAP_FAILED_def)
  note t = lifecycle [of state_ab 4096 "0x10010" alloc_a env_a 100 state_a 16]
  from t i have a: "android_jit_init state_ab 4096 = state_ab" by blast
  from t have b: "android_jit_rw_to_rx (fst (android_jit_shutdown state_ab)) 0x10010 = Some 0"
    by blast
  from t os env(1-4) st3 k
  have "android_jit_rw_to_rx state_a (mmap_rw_ret env_a + 16) = Some (mmap_rx_ret env_a + 16) \<and>
      android_jit_rx_to_rw state_a (mmap_rx_ret env_a + 16) = Some (mmap_rw_ret env_a + 16)"
    by blast
  then have c: "android_jit_rw_to_rx state_a (0x10000 + 16) = Some (0x20000 + 16) \<and>
      android_jit_rx_to_rw state_a (0x20000 + 16) = Some (0x10000 + 16)"
    by (simp only: env(5,6))
  from i a registry_ok_state_ab open_a shutdown_calls_state_ab before b os st3 k c
  show ?thesis by blast
qed

section \<open>A size of zero\<close>

lemma os_errno_contract_len0: "os_errno_contract state_a env_len0 errno_len0 0"
  by (simp add: os_errno_contract_def mmap_errno_ok_def errno_len0_def)

lemma os_contract_env_no_memfd: "os_contract state_a env_no_memfd 0"
  by (simp add: os_contract_def Let_def mmap_ok_def env_no_memfd_def)

lemma os_errno_contract_no_memfd: "os_errno_contract state_a env_no_memfd errno_no_memfd 0"
  by (simp add: os_errno_contract_def mmap_errno_ok_def errno_no_memfd_def)

lemma alloc_env_no_memfd:
  "android_jit_alloc state_a env_no_memfd 0 True True =
     (Inl Memfd_create_failed, state_a, [Memfd_create (- 1)])"
  by (simp add: alloc_zero_size [OF os_contract_env_no_memfd])
    (simp add: env_no_memfd_def state_at_mmap_def state_a_eq)

lemma errno_null_slot: "errno_after_alloc e (Inl EINVAL_null_slot) = Some EINVAL"
  by (simp add: errno_after_alloc_def alloc_errno_def)

lemma zero_size_fails:
  assumes os: "os_contract st env 0" and en: "os_errno_contract st env e 0"
  shows "case android_jit_alloc st env 0 True True of (res, st', calls) \<Rightarrow>
     g_jit_allocations_by_rw st' = g_jit_allocations_by_rw st \<and>
     g_jit_allocations_by_rx st' = g_jit_allocations_by_rx st \<and>
     calls \<noteq> [] \<and> hd calls = Memfd_create (memfd_ret env) \<and>
     (0 \<le> memfd_ret env \<longrightarrow> last calls = Close (memfd_ret env)) \<and>
     errno_after_alloc e res =
       Some (if memfd_ret env < 0 then memfd_errno e
             else if ftruncate_ret env < 0 then ftruncate_errno e else EINVAL)"
proof -
  from en have "mmap_rw_errno e = EINVAL"
    by (simp add: os_errno_contract_def mmap_errno_ok_def round_up_zero)
  then show ?thesis
    by (simp add: alloc_zero_size [OF os] state_at_mmap_registry errno_after_alloc_def
        alloc_errno_def)
qed


text \<open>
  C7 does not hold for a size of zero: \<open>android_jit_alloc\<close> has no check of its \<open>size\<close>
  argument. With non-null slots and size 0 it creates the backing descriptor, truncates
  it to 0 bytes and asks for a mapping of length 0, which \<open>mmap\<close> refuses: the error is
  \<open>EINVAL\<close>, but a backing store was created before it. And when \<open>memfd_create\<close> fails,
  the error of a call with size 0 is the one \<open>memfd_create\<close> left, not \<open>EINVAL\<close>.
\<close>

theorem zero_size_counterexample:
  "os_contract state_a env_len0 0 \<and> os_errno_contract state_a env_len0 errno_len0 0 \<and>
   android_jit_alloc state_a env_len0 0 True True =
     (Inl Mmap_rw_failed, state_a,
      [Memfd_create 4, Ftruncate 4 0, Mmap 0 PROT_READ_WRITE 4 MAP_FAILED, Close 4]) \<and>
   errno_after_alloc errno_len0 (fst (android_jit_alloc state_a env_len0 0 True True)) =
     Some EINVAL \<and>
   snd (snd (android_jit_alloc state_a env_len0 0 True True)) \<noteq> [] \<and>
   os_contract state_a env_no_memfd 0 \<and>
   os_errno_contract state_a env_no_memfd errno_no_memfd 0 \<and>
   android_jit_alloc state_a env_no_memfd 0 True True =
     (Inl Memfd_create_failed, state_a, [Memfd_create (- 1)]) \<and>
   errno_after_alloc errno_no_memfd (fst (android_jit_alloc state_a env_no_memfd 0 True True)) =
     Some EMFILE \<and>
   EMFILE \<noteq> EINVAL"
proof -
  have 1: "errno_after_alloc errno_len0 (fst (android_jit_alloc state_a env_len0 0 True True)) =
      Some EINVAL"
    by (simp add: alloc_env_len0 errno_after_alloc_def alloc_errno_def errno_len0_def)
  have 2: "snd (snd (android_jit_alloc state_a env_len0 0 True True)) \<noteq> []"
    by (simp add: alloc_env_len0)
  have 3: "errno_after_alloc errno_no_memfd
      (fst (android_jit_alloc state_a env_no_memfd 0 True True)) = Some EMFILE"
    by (simp add: alloc_env_no_memfd errno_after_alloc_def alloc_errno_def errno_no_memfd_def)
  have 4: "EMFILE \<noteq> EINVAL" by (simp add: EMFILE_def EINVAL_def)
  from os_contract_env_len0 os_errno_contract_len0 alloc_env_len0 1 2
    os_contract_env_no_memfd os_errno_contract_no_memfd alloc_env_no_memfd 3 4
  show ?thesis by blast
qed

text \<open>
  C7 as amended: \<open>allocate\<close> fails with the invalid-argument error, before any system
  call and with the state unchanged, whenever an output slot is null. With a size of zero
  and non-null slots it fails too and leaves both indexes unchanged, but only after it has
  asked for the backing descriptor: when the descriptor is created and sized, the failure
  is the refusal of the mapping of length 0 and the error is again the invalid-argument
  error, returned after the descriptor is closed; when the descriptor cannot be created or
  sized, the error is the one that step left.
\<close>

theorem invalid_argument_rejection:
  "(\<not> rw_slot \<or> \<not> rx_slot \<longrightarrow>
      android_jit_alloc st env sz rw_slot rx_slot = (Inl EINVAL_null_slot, st, []) \<and>
      errno_after_alloc e (fst (android_jit_alloc st env sz rw_slot rx_slot)) = Some EINVAL) \<and>
   (os_contract st env 0 \<and> os_errno_contract st env e 0 \<longrightarrow>
      (case android_jit_alloc st env 0 True True of (res, st', calls) \<Rightarrow>
         g_jit_allocations_by_rw st' = g_jit_allocations_by_rw st \<and>
         g_jit_allocations_by_rx st' = g_jit_allocations_by_rx st \<and>
         calls \<noteq> [] \<and> hd calls = Memfd_create (memfd_ret env) \<and>
         (0 \<le> memfd_ret env \<longrightarrow> last calls = Close (memfd_ret env)) \<and>
         errno_after_alloc e res =
           Some (if memfd_ret env < 0 then memfd_errno e
                 else if ftruncate_ret env < 0 then ftruncate_errno e else EINVAL)))"
proof (intro conjI impI)
  assume "\<not> rw_slot \<or> \<not> rx_slot"
  then show "android_jit_alloc st env sz rw_slot rx_slot = (Inl EINVAL_null_slot, st, [])"
    by (rule alloc_null_slot)
next
  assume "\<not> rw_slot \<or> \<not> rx_slot"
  then have "fst (android_jit_alloc st env sz rw_slot rx_slot) = Inl EINVAL_null_slot"
    by (simp add: alloc_null_slot)
  then show "errno_after_alloc e (fst (android_jit_alloc st env sz rw_slot rx_slot)) =
      Some EINVAL"
    by (simp only: errno_null_slot)
next
  assume "os_contract st env 0 \<and> os_errno_contract st env e 0"
  then have os: "os_contract st env 0" and en: "os_errno_contract st env e 0" by blast+
  show "case android_jit_alloc st env 0 True True of (res, st', calls) \<Rightarrow>
         g_jit_allocations_by_rw st' = g_jit_allocations_by_rw st \<and>
         g_jit_allocations_by_rx st' = g_jit_allocations_by_rx st \<and>
         calls \<noteq> [] \<and> hd calls = Memfd_create (memfd_ret env) \<and>
         (0 \<le> memfd_ret env \<longrightarrow> last calls = Close (memfd_ret env)) \<and>
         errno_after_alloc e res =
           Some (if memfd_ret env < 0 then memfd_errno e
                 else if ftruncate_ret env < 0 then ftruncate_errno e else EINVAL)"
    by (rule zero_size_fails [OF os en])
qed

theorem invalid_argument_rejection_witness:
  "android_jit_alloc state_a env_len0 100 False True = (Inl EINVAL_null_slot, state_a, []) \<and>
   errno_after_alloc errno_len0 (fst (android_jit_alloc state_a env_len0 100 False True)) =
     Some EINVAL \<and>
   os_contract state_a env_len0 0 \<and> os_errno_contract state_a env_len0 errno_len0 0 \<and>
   g_jit_allocations_by_rw (fst (snd (android_jit_alloc state_a env_len0 0 True True))) =
     g_jit_allocations_by_rw state_a \<and>
   last (snd (snd (android_jit_alloc state_a env_len0 0 True True))) = Close 4 \<and>
   errno_after_alloc errno_len0 (fst (android_jit_alloc state_a env_len0 0 True True)) =
     Some EINVAL"
proof -
  note t = invalid_argument_rejection [where rw_slot = False and rx_slot = True
      and st = state_a and env = env_len0 and sz = 100 and e = errno_len0]
  from t have null: "android_jit_alloc state_a env_len0 100 False True =
      (Inl EINVAL_null_slot, state_a, [])"
    "errno_after_alloc errno_len0 (fst (android_jit_alloc state_a env_len0 100 False True)) =
      Some EINVAL"
    by blast+
  note z = t [THEN conjunct2, THEN mp,
      OF conjI [OF os_contract_env_len0 os_errno_contract_len0]]
  from z have zero:
    "g_jit_allocations_by_rw (fst (snd (android_jit_alloc state_a env_len0 0 True True))) =
       g_jit_allocations_by_rw state_a"
    "last (snd (snd (android_jit_alloc state_a env_len0 0 True True))) = Close 4"
    "errno_after_alloc errno_len0 (fst (android_jit_alloc state_a env_len0 0 True True)) =
       Some EINVAL"
    unfolding alloc_env_len0 by (simp_all add: env_len0_def)
  from null zero os_contract_env_len0 os_errno_contract_len0 show ?thesis by blast
qed

end
